theory Spec2Isabelle
  imports Main "HOL-Library.AList"
begin

section \<open>Python values used by the gateway\<close>

text \<open>
  The gateway (\<^verbatim>\<open>app.py\<close>) works on the values that \<^verbatim>\<open>json.loads\<close> returns:
  \<^verbatim>\<open>None\<close>, booleans, integers, strings, lists and dictionaries. A dictionary is an
  association list in insertion order; \<^verbatim>\<open>json.loads\<close> never returns one with a repeated
  key. Numbers with a fractional part are not part of the model.
\<close>

datatype json =
    JNull
  | JBool bool
  | JInt int
  | JStr string
  | JArr "json list"
  | JObj "(string \<times> json) list"

datatype py_error =
    AttributeError
  | KeyError
  | IndexError
  | TypeError
  | JSONDecodeError
  | UnboundLocalError
  | OSError

text \<open>Truth value of a Python object, as \<^verbatim>\<open>if x\<close>, \<^verbatim>\<open>not x\<close> and \<^verbatim>\<open>x or y\<close> read it.\<close>

fun truthy :: "json \<Rightarrow> bool" where
  "truthy JNull = False"
| "truthy (JBool b) = b"
| "truthy (JInt i) = (i \<noteq> 0)"
| "truthy (JStr s) = (s \<noteq> [])"
| "truthy (JArr xs) = (xs \<noteq> [])"
| "truthy (JObj kvs) = (kvs \<noteq> [])"

definition py_or :: "json \<Rightarrow> json \<Rightarrow> json" where
  "py_or a b = (if truthy a then a else b)"

text \<open>
  Python's \<^verbatim>\<open>==\<close> on these values: \<^verbatim>\<open>True == 1\<close> and \<^verbatim>\<open>False == 0\<close>, lists are
  compared element by element, dictionaries key by key whatever their order.
\<close>

fun py_eq :: "json \<Rightarrow> json \<Rightarrow> bool" where
  "py_eq JNull JNull = True"
| "py_eq (JBool a) (JBool b) = (a = b)"
| "py_eq (JBool a) (JInt i) = ((if a then 1 else 0) = i)"
| "py_eq (JInt i) (JBool a) = (i = (if a then 1 else 0))"
| "py_eq (JInt i) (JInt j) = (i = j)"
| "py_eq (JStr s) (JStr t) = (s = t)"
| "py_eq (JArr xs) (JArr ys) = list_all2 py_eq xs ys"
| "py_eq (JObj xs) (JObj ys) =
     (set (map fst xs) = set (map fst ys) \<and>
      list_all (\<lambda>(k, v). list_all (\<lambda>(k', w). if k = k' then py_eq v w else True) ys) xs)"
| "py_eq _ _ = False"

text \<open>\<^verbatim>\<open>d.get(k, default)\<close>: an object that is not a dictionary has no \<^verbatim>\<open>get\<close>.\<close>

fun dict_get :: "json \<Rightarrow> string \<Rightarrow> json \<Rightarrow> py_error + json" where
  "dict_get (JObj kvs) k dflt = Inr (case map_of kvs k of None \<Rightarrow> dflt | Some v \<Rightarrow> v)"
| "dict_get _ k dflt = Inl AttributeError"

text \<open>\<^verbatim>\<open>x[0]\<close>.\<close>

fun index0 :: "json \<Rightarrow> py_error + json" where
  "index0 (JArr []) = Inl IndexError"
| "index0 (JArr (x # xs)) = Inr x"
| "index0 (JStr []) = Inl IndexError"
| "index0 (JStr (c # cs)) = Inr (JStr [c])"
| "index0 (JObj kvs) = Inl KeyError"
| "index0 _ = Inl TypeError"

text \<open>\<^verbatim>\<open>s += x\<close> for a string \<^verbatim>\<open>s\<close>: only a string can be appended.\<close>

fun str_add :: "string \<Rightarrow> json \<Rightarrow> py_error + string" where
  "str_add s (JStr t) = Inr (s @ t)"
| "str_add s _ = Inl TypeError"

text \<open>\<^verbatim>\<open>d[k] = v\<close> on a dictionary: an existing key keeps its place.\<close>

definition dict_set :: "string \<Rightarrow> json \<Rightarrow> (string \<times> json) list \<Rightarrow> (string \<times> json) list" where
  "dict_set k v kvs = AList.update k v kvs"

subsection \<open>Strings\<close>

definition startswith :: "string \<Rightarrow> string \<Rightarrow> bool" where
  "startswith s p = (take (length p) s = p)"

text \<open>
  A character of the model is a code point below 256. Of these, \<^verbatim>\<open>str.strip()\<close> removes
  the ones for which \<^verbatim>\<open>str.isspace()\<close> holds: tab to carriage return, the four separators
  \<^verbatim>\<open>0x1c\<close> to \<^verbatim>\<open>0x1f\<close>, the space, the next-line control \<^verbatim>\<open>0x85\<close> and the no-break
  space \<^verbatim>\<open>0xa0\<close>.
\<close>

definition is_space :: "char \<Rightarrow> bool" where
  "is_space c =
     (let n = of_char c :: nat
      in (9 \<le> n \<and> n \<le> 13) \<or> (28 \<le> n \<and> n \<le> 32) \<or> n = 133 \<or> n = 160)"

definition strip :: "string \<Rightarrow> string" where
  "strip s = rev (dropWhile is_space (rev (dropWhile is_space s)))"

section \<open>The stream reconstructor: \<^verbatim>\<open>handle_stream_response\<close>\<close>

text \<open>
  The local variables of the generator. \<^verbatim>\<open>role\<close>, \<^verbatim>\<open>choice_index\<close> and
  \<^verbatim>\<open>tool_call_index\<close> take whatever value the backend sends, so they are \<^typ>\<open>json\<close>.
\<close>

record state =
  buffer :: string
  last_chunk :: "json option"
  role :: json
  choice_index :: json
  tool_call_index :: json
  tool_call_id :: string
  tool_name :: string
  reasoning_content_buffer :: string

definition init :: state where
  "init = \<lparr> buffer = [], last_chunk = None, role = JNull, choice_index = JInt 0,
             tool_call_index = JInt 0, tool_call_id = [], tool_name = [],
             reasoning_content_buffer = [] \<rparr>"

text \<open>
  What the generator yields. \<open>Raw s\<close> is the string \<open>s\<close>. \<open>Forwarded j\<close> is the line yielded
  at the end of an iteration and \<open>Flushed j name arguments call_id reasoning\<close> the line
  \<^verbatim>\<open>create_tool_call\<close> returns for the carrier \<open>j\<close>; both are
  \<^verbatim>\<open>"data: " + json.dumps(j) + "\n\n"\<close>. The four strings of \<open>Flushed\<close> are not part of the
  line: they record the arguments \<^verbatim>\<open>create_tool_call\<close> gave to
  \<^verbatim>\<open>parser.modify_tool_call_to_xml_message\<close>.
\<close>

datatype out = Raw string | Flushed json string string string string | Forwarded json

fun render :: "(json \<Rightarrow> string) \<Rightarrow> out \<Rightarrow> string" where
  "render dumps (Raw s) = s"
| "render dumps (Flushed j n a i r) = ''data: '' @ dumps j @ [CHR 0x0A, CHR 0x0A]"
| "render dumps (Forwarded j) = ''data: '' @ dumps j @ [CHR 0x0A, CHR 0x0A]"

text \<open>
  A computation yields lines and then either raises or returns: the lines yielded before an
  exception have already reached the client.
\<close>

type_synonym 'a res = "out list \<times> (py_error + 'a)"

definition retR :: "'a \<Rightarrow> 'a res" where
  "retR x = ([], Inr x)"

definition liftE :: "py_error + 'a \<Rightarrow> 'a res" where
  "liftE m = ([], m)"

definition bindR :: "'a res \<Rightarrow> ('a \<Rightarrow> 'b res) \<Rightarrow> 'b res" where
  "bindR m f =
     (case m of
        (o1, Inl e) \<Rightarrow> (o1, Inl e)
      | (o1, Inr x) \<Rightarrow> (case f x of (o2, r) \<Rightarrow> (o1 @ o2, r)))"

text \<open>\<^verbatim>\<open>last_chunk["choices"][0]["delta"]["content"] = x\<close>, on the value of the carrier.\<close>

definition set_content :: "json \<Rightarrow> string \<Rightarrow> py_error + json" where
  "set_content lc x =
     (case lc of
        JObj kvs \<Rightarrow>
          (case map_of kvs ''choices'' of
             None \<Rightarrow> Inl KeyError
           | Some (JArr []) \<Rightarrow> Inl IndexError
           | Some (JArr (JObj ckvs # cs)) \<Rightarrow>
               (case map_of ckvs ''delta'' of
                  None \<Rightarrow> Inl KeyError
                | Some (JObj dkvs) \<Rightarrow>
                    Inr (JObj (dict_set ''choices''
                      (JArr (JObj (dict_set ''delta''
                        (JObj (dict_set ''content'' (JStr x) dkvs)) ckvs) # cs)) kvs))
                | Some _ \<Rightarrow> Inl TypeError)
           | Some (JArr (_ # cs)) \<Rightarrow> Inl TypeError
           | Some (JStr []) \<Rightarrow> Inl IndexError
           | Some (JObj _) \<Rightarrow> Inl KeyError
           | Some _ \<Rightarrow> Inl TypeError)
      | _ \<Rightarrow> Inl TypeError)"

text \<open>
  \<^verbatim>\<open>create_tool_call\<close> (lines 151 to 162). \<open>enc\<close> is
  \<^verbatim>\<open>parser.modify_tool_call_to_xml_message\<close> and \<open>repl\<close> is
  \<^verbatim>\<open>apply_replacement_to_completion\<close>; both come from modules outside the sources at hand
  and are parameters.
\<close>

definition create_tool_call ::
  "(string \<Rightarrow> string \<Rightarrow> string \<Rightarrow> string \<Rightarrow> string) \<Rightarrow> (string \<Rightarrow> string) \<Rightarrow> state \<Rightarrow> state res" where
  "create_tool_call enc repl st =
     (case last_chunk st of
        None \<Rightarrow> ([], Inl TypeError)
      | Some lc \<Rightarrow>
          (case set_content lc
                  (repl (enc (tool_name st) (buffer st) (tool_call_id st)
                     (reasoning_content_buffer st))) of
             Inl e \<Rightarrow> ([], Inl e)
           | Inr lc' \<Rightarrow>
               ([Flushed lc' (tool_name st) (buffer st) (tool_call_id st)
                   (reasoning_content_buffer st)],
                Inr (st\<lparr> last_chunk := Some lc', buffer := [], tool_name := [],
                         tool_call_id := [], reasoning_content_buffer := [] \<rparr>))))"

text \<open>The local variables after \<^verbatim>\<open>create_tool_call\<close> has flushed into the carrier \<open>lc'\<close>.\<close>

definition flushed :: "state \<Rightarrow> json \<Rightarrow> state" where
  "flushed st lc' =
     st\<lparr> last_chunk := Some lc', buffer := [], tool_name := [], tool_call_id := [],
         reasoning_content_buffer := [] \<rparr>"

text \<open>\<^verbatim>\<open>if c and buffer: yield create_tool_call()\<close>.\<close>

definition flush_if ::
  "bool \<Rightarrow> (string \<Rightarrow> string \<Rightarrow> string \<Rightarrow> string \<Rightarrow> string) \<Rightarrow> (string \<Rightarrow> string) \<Rightarrow> state \<Rightarrow> state res" where
  "flush_if c enc repl st = (if c \<and> buffer st \<noteq> [] then create_tool_call enc repl st else retR st)"

text \<open>
  Lines 170 to 175: what is read from the event, and the reasoning buffer after
  \<^verbatim>\<open>reasoning_content_buffer += delta.get("reasoning_content") or ""\<close>.
\<close>

record parsed =
  choice_index_of_delta :: json
  delta :: json
  role_in_delta :: json
  tool_calls_in_delta :: json
  reasoning_after :: string

definition parse_event :: "state \<Rightarrow> json \<Rightarrow> py_error + parsed" where
  "parse_event st data =
     (case dict_get data ''choices'' JNull of Inl e \<Rightarrow> Inl e | Inr choices \<Rightarrow>
      case index0 (py_or choices (JArr [JObj []])) of Inl e \<Rightarrow> Inl e | Inr choice \<Rightarrow>
      case dict_get choice ''index'' (choice_index st) of Inl e \<Rightarrow> Inl e | Inr ci \<Rightarrow>
      case dict_get choice ''delta'' JNull of Inl e \<Rightarrow> Inl e | Inr d \<Rightarrow>
      case dict_get (py_or d (JObj [])) ''role'' (role st) of Inl e \<Rightarrow> Inl e | Inr ro \<Rightarrow>
      case dict_get (py_or d (JObj [])) ''tool_calls'' JNull of Inl e \<Rightarrow> Inl e | Inr tcs \<Rightarrow>
      case dict_get (py_or d (JObj [])) ''reasoning_content'' JNull of Inl e \<Rightarrow> Inl e | Inr rc \<Rightarrow>
      case str_add (reasoning_content_buffer st) (py_or rc (JStr [])) of Inl e \<Rightarrow> Inl e | Inr r \<Rightarrow>
        Inr \<lparr> choice_index_of_delta = ci, delta = py_or d (JObj []), role_in_delta = ro,
              tool_calls_in_delta = tcs, reasoning_after = r \<rparr>)"

text \<open>The condition of lines 176 to 181, without its \<^verbatim>\<open>and buffer\<close>.\<close>

definition boundary :: "state \<Rightarrow> parsed \<Rightarrow> bool" where
  "boundary st p =
     (\<not> py_eq (choice_index_of_delta p) (choice_index st)
      \<or> \<not> truthy (delta p)
      \<or> \<not> py_eq (role_in_delta p) (role st)
      \<or> \<not> truthy (tool_calls_in_delta p))"

text \<open>
  Lines 190 to 194, the body of \<^verbatim>\<open>if tool_call\<close>. The result says whether
  \<^verbatim>\<open>last_chunk = data\<close> was executed, that is, whether \<^verbatim>\<open>last_chunk\<close> now is the object
  \<^verbatim>\<open>data\<close>.
\<close>

definition add_fragment :: "json \<Rightarrow> json \<Rightarrow> state \<Rightarrow> (state \<times> bool) res" where
  "add_fragment data tool_call st =
     (if truthy tool_call then
        bindR (liftE (dict_get tool_call ''function'' JNull)) (\<lambda>fn.
        bindR (liftE (dict_get fn ''name'' (JStr []))) (\<lambda>nm.
        bindR (liftE (str_add (tool_name st) nm)) (\<lambda>tool_name'.
        bindR (liftE (dict_get fn ''arguments'' (JStr []))) (\<lambda>args.
        bindR (liftE (str_add (buffer st) args)) (\<lambda>buffer'.
        bindR (liftE (dict_get tool_call ''id'' (JStr []))) (\<lambda>cid.
        bindR (liftE (str_add (tool_call_id st) cid)) (\<lambda>tool_call_id'.
        bindR (liftE (dict_get tool_call ''index'' (tool_call_index st))) (\<lambda>idx'.
        retR (st\<lparr> tool_name := tool_name', buffer := buffer',
                   tool_call_id := tool_call_id', tool_call_index := idx',
                   last_chunk := Some data \<rparr>, True)))))))))
      else retR (st, False))"

text \<open>Lines 186 to 194, the body of \<^verbatim>\<open>if role == "assistant"\<close>.\<close>

definition accumulate ::
  "(string \<Rightarrow> string \<Rightarrow> string \<Rightarrow> string \<Rightarrow> string) \<Rightarrow> (string \<Rightarrow> string) \<Rightarrow> json \<Rightarrow> json \<Rightarrow> state
     \<Rightarrow> (state \<times> bool) res" where
  "accumulate enc repl data tcs st =
     bindR (liftE (index0 (py_or tcs (JArr [JObj []])))) (\<lambda>tool_call.
     bindR (liftE (dict_get tool_call ''index'' JNull)) (\<lambda>idx.
     bindR (flush_if (\<not> py_eq idx (tool_call_index st)) enc repl st) (\<lambda>st1.
     add_fragment data tool_call st1)))"

text \<open>
  Lines 195 to 199. When \<^verbatim>\<open>last_chunk\<close> is the object \<^verbatim>\<open>data\<close> (\<open>aliased\<close>), what
  \<^verbatim>\<open>create_tool_call\<close> writes into the carrier is written into \<^verbatim>\<open>data\<close>, and the finish
  reason written into \<^verbatim>\<open>data\<close> is written into the carrier.
\<close>

definition finish ::
  "(string \<Rightarrow> string \<Rightarrow> string \<Rightarrow> string \<Rightarrow> string) \<Rightarrow> (string \<Rightarrow> string) \<Rightarrow> json \<Rightarrow> bool \<Rightarrow> state
     \<Rightarrow> state res" where
  "finish enc repl data aliased st =
     bindR (liftE (dict_get data ''finish_reason'' JNull)) (\<lambda>fr.
     bindR (flush_if (truthy fr) enc repl st) (\<lambda>st1.
     let data1 = (if aliased then (case last_chunk st1 of Some lc \<Rightarrow> lc | None \<Rightarrow> data) else data) in
     bindR (liftE (dict_get data1 ''finish_reason'' JNull)) (\<lambda>fr1.
     let data2 = (if py_eq fr1 (JStr ''tool_calls'')
                  then (case data1 of JObj kvs \<Rightarrow> JObj (dict_set ''finish_reason'' (JStr ''stop'') kvs)
                        | _ \<Rightarrow> data1)
                  else data1);
         st2 = (if aliased then st1\<lparr> last_chunk := Some data2 \<rparr> else st1)
     in ([Forwarded data2], Inr st2))))"

text \<open>Lines 183 to 199: the event after the first flush point.\<close>

definition after_boundary ::
  "(string \<Rightarrow> string \<Rightarrow> string \<Rightarrow> string \<Rightarrow> string) \<Rightarrow> (string \<Rightarrow> string) \<Rightarrow> json \<Rightarrow> parsed \<Rightarrow> state
     \<Rightarrow> state res" where
  "after_boundary enc repl data p st =
     (let st2 = st\<lparr> choice_index := choice_index_of_delta p, role := role_in_delta p \<rparr> in
      bindR (if py_eq (role_in_delta p) (JStr ''assistant'')
             then accumulate enc repl data (tool_calls_in_delta p) st2
             else retR (st2, False)) (\<lambda>(st3, aliased).
      finish enc repl data aliased st3))"

text \<open>Lines 170 to 199: one parsed event \<^verbatim>\<open>data\<close>.\<close>

definition process_event ::
  "(string \<Rightarrow> string \<Rightarrow> string \<Rightarrow> string \<Rightarrow> string) \<Rightarrow> (string \<Rightarrow> string) \<Rightarrow> state \<Rightarrow> json \<Rightarrow> state res" where
  "process_event enc repl st data =
     bindR (liftE (parse_event st data)) (\<lambda>p.
     bindR (flush_if (boundary st p) enc repl
              (st\<lparr> reasoning_content_buffer := reasoning_after p \<rparr>)) (\<lambda>st1.
     after_boundary enc repl data p st1))"

text \<open>
  How the generator ends: the line source is exhausted (with the final local variables), the
  client was found disconnected, or an exception left the generator.
\<close>

datatype outcome = Completed state | Disconnected | Raised py_error

text \<open>
  The loop over \<^verbatim>\<open>response.aiter_lines()\<close>. \<open>is_disconnected k\<close> is the answer of the
  \<open>k\<close>-th call of \<^verbatim>\<open>is_disconnected()\<close>, one call per line; \<open>loads\<close> is \<^verbatim>\<open>json.loads\<close>,
  \<open>None\<close> when it raises.
\<close>

fun stream_loop ::
  "(string \<Rightarrow> json option) \<Rightarrow> (string \<Rightarrow> string \<Rightarrow> string \<Rightarrow> string \<Rightarrow> string) \<Rightarrow> (string \<Rightarrow> string)
     \<Rightarrow> (nat \<Rightarrow> bool) \<Rightarrow> nat \<Rightarrow> state \<Rightarrow> string list \<Rightarrow> out list \<times> outcome" where
  "stream_loop loads enc repl is_disconnected k st [] = ([], Completed st)"
| "stream_loop loads enc repl is_disconnected k st (line # rest) =
     (if is_disconnected k then ([], Disconnected)
      else if \<not> startswith line ''data: '' then
        stream_loop loads enc repl is_disconnected (Suc k) st rest
      else if strip line = ''data: [DONE]'' then
        (case flush_if True enc repl st of
           (o1, Inl e) \<Rightarrow> (o1, Raised e)
         | (o1, Inr st1) \<Rightarrow>
             (case stream_loop loads enc repl is_disconnected (Suc k) st1 rest of
                (o2, r) \<Rightarrow> (o1 @ [Raw (line @ [CHR 0x0A, CHR 0x0A])] @ o2, r)))
      else
        (case loads (strip (drop 6 line)) of
           None \<Rightarrow> ([], Raised JSONDecodeError)
         | Some data \<Rightarrow>
             (case process_event enc repl st data of
                (o1, Inl e) \<Rightarrow> (o1, Raised e)
              | (o1, Inr st1) \<Rightarrow>
                  (case stream_loop loads enc repl is_disconnected (Suc k) st1 rest of
                     (o2, r) \<Rightarrow> (o1 @ o2, r)))))"

text \<open>
  The backend's response as \<^verbatim>\<open>httpx\<close> presents it. \<^verbatim>\<open>Response.is_error\<close> is true for the
  status codes 400 to 599.
\<close>

record response =
  status_code :: int
  body_text :: string
  body_lines :: "string list"

definition is_error :: "response \<Rightarrow> bool" where
  "is_error r = (400 \<le> status_code r \<and> status_code r \<le> 599)"

definition handle_stream_response ::
  "(string \<Rightarrow> json option) \<Rightarrow> (string \<Rightarrow> string \<Rightarrow> string \<Rightarrow> string \<Rightarrow> string) \<Rightarrow> (string \<Rightarrow> string)
     \<Rightarrow> (nat \<Rightarrow> bool) \<Rightarrow> response \<Rightarrow> out list \<times> outcome" where
  "handle_stream_response loads enc repl is_disconnected r =
     (if is_error r then
        ([Raw (''data: '' @ body_text r @ [CHR 0x0A, CHR 0x0A]),
          Raw (''data: [DONE]'' @ [CHR 0x0A, CHR 0x0A])], Completed init)
      else stream_loop loads enc repl is_disconnected 0 init (body_lines r))"


section \<open>The non-streaming reply of \<^verbatim>\<open>create_completion\<close>\<close>

text \<open>
  Lines 242 to 247. \<^verbatim>\<open>r.json()\<close> is \<open>loads\<close> on the body and raises when the body is not
  JSON; \<open>to_xml\<close> is \<^verbatim>\<open>parser.modify_tool_calls_to_xml_messages\<close> with the completion
  transform already given. The result is the status code and the content of the
  \<^verbatim>\<open>JSONResponse\<close>.
\<close>

definition create_completion_reply ::
  "(string \<Rightarrow> json option) \<Rightarrow> (json \<Rightarrow> json) \<Rightarrow> response \<Rightarrow> py_error + (int \<times> json)" where
  "create_completion_reply loads to_xml r =
     (if is_error r then
        (case loads (body_text r) of
           None \<Rightarrow> Inl JSONDecodeError
         | Some j \<Rightarrow> Inr (status_code r, j))
      else
        (case loads (body_text r) of
           None \<Rightarrow> Inl JSONDecodeError
         | Some j \<Rightarrow> Inr (status_code r, to_xml j)))"

section \<open>Reading an event\<close>

text \<open>
  The places of an event the reconstructor reads: \<^verbatim>\<open>choices[0]\<close>, its \<^verbatim>\<open>delta\<close>, a field of
  the delta, the first entry of \<^verbatim>\<open>tool_calls\<close> and its \<^verbatim>\<open>function\<close>.
\<close>

definition choice0 :: "json \<Rightarrow> (string \<times> json) list option" where
  "choice0 e =
     (case e of
        JObj kvs \<Rightarrow>
          (case map_of kvs ''choices'' of
             Some (JArr (JObj ckvs # cs)) \<Rightarrow> Some ckvs
           | _ \<Rightarrow> None)
      | _ \<Rightarrow> None)"

definition delta0 :: "json \<Rightarrow> (string \<times> json) list option" where
  "delta0 e =
     (case choice0 e of
        Some ckvs \<Rightarrow> (case map_of ckvs ''delta'' of Some (JObj dkvs) \<Rightarrow> Some dkvs | _ \<Rightarrow> None)
      | None \<Rightarrow> None)"

definition delta_field :: "json \<Rightarrow> string \<Rightarrow> json option" where
  "delta_field e k = (case delta0 e of Some dkvs \<Rightarrow> map_of dkvs k | None \<Rightarrow> None)"

definition tool_call0 :: "json \<Rightarrow> (string \<times> json) list option" where
  "tool_call0 e =
     (case delta_field e ''tool_calls'' of
        Some (JArr (JObj tkvs # ts)) \<Rightarrow> Some tkvs
      | _ \<Rightarrow> None)"

definition function0 :: "json \<Rightarrow> (string \<times> json) list option" where
  "function0 e =
     (case tool_call0 e of
        Some tkvs \<Rightarrow> (case map_of tkvs ''function'' of Some (JObj fkvs) \<Rightarrow> Some fkvs | _ \<Rightarrow> None)
      | None \<Rightarrow> None)"

definition top_field :: "json \<Rightarrow> string \<Rightarrow> json option" where
  "top_field e k = (case e of JObj kvs \<Rightarrow> map_of kvs k | _ \<Rightarrow> None)"

definition choice_field :: "json \<Rightarrow> string \<Rightarrow> json option" where
  "choice_field e k = (case choice0 e of Some ckvs \<Rightarrow> map_of ckvs k | None \<Rightarrow> None)"

text \<open>The delta of the event holds a non-empty \<^verbatim>\<open>tool_calls\<close>.\<close>

definition has_tool_calls :: "json \<Rightarrow> bool" where
  "has_tool_calls e = (case delta_field e ''tool_calls'' of Some v \<Rightarrow> truthy v | None \<Rightarrow> False)"

text \<open>Two events hold the same \<^verbatim>\<open>tool_calls\<close> and the same \<^verbatim>\<open>reasoning_content\<close> in their
  delta (or both lack the field).\<close>

definition same_fields :: "json \<Rightarrow> json \<Rightarrow> bool" where
  "same_fields a b =
     (delta_field a ''tool_calls'' = delta_field b ''tool_calls'' \<and>
      delta_field a ''reasoning_content'' = delta_field b ''reasoning_content'')"

text \<open>Lines 197 and 198 on the value of an event: a finish reason \<^verbatim>\<open>tool_calls\<close> at the
  top level becomes \<^verbatim>\<open>stop\<close>.\<close>

definition remap_finish :: "json \<Rightarrow> json" where
  "remap_finish e =
     (case e of
        JObj kvs \<Rightarrow>
          (if py_eq (case map_of kvs ''finish_reason'' of None \<Rightarrow> JNull | Some v \<Rightarrow> v)
                (JStr ''tool_calls'')
           then JObj (dict_set ''finish_reason'' (JStr ''stop'') kvs)
           else e)
      | _ \<Rightarrow> e)"

text \<open>
  The event \<open>t\<close> is the event \<open>e\<close> changed in at most two places: \<open>e\<close> itself after
  lines 197 and 198, or \<open>e\<close> with a string written into the \<^verbatim>\<open>content\<close> of its delta
  (what \<^verbatim>\<open>create_tool_call\<close> does to its carrier) and then lines 197 and 198. Nothing
  else of \<open>e\<close> is changed and nothing is removed from it.
\<close>

definition forward_of :: "json \<Rightarrow> json \<Rightarrow> bool" where
  "forward_of e t =
     (t = remap_finish e
      \<or> (case delta_field t ''content'' of
           Some (JStr x) \<Rightarrow>
             (case set_content e x of Inr c \<Rightarrow> t = remap_finish c | Inl err \<Rightarrow> False)
         | _ \<Rightarrow> False))"

text \<open>The events of the lines yielded at the end of an iteration, in order.\<close>

fun forwarded :: "out list \<Rightarrow> json list" where
  "forwarded [] = []"
| "forwarded (Forwarded j # os) = j # forwarded os"
| "forwarded (_ # os) = forwarded os"

text \<open>The events the loop parses from the lines, in order: the lines that start with
  \<^verbatim>\<open>data: \<close> and are not the sentinel.\<close>

fun data_events :: "(string \<Rightarrow> json option) \<Rightarrow> string list \<Rightarrow> json list" where
  "data_events loads [] = []"
| "data_events loads (line # rest) =
     (if \<not> startswith line ''data: '' \<or> strip line = ''data: [DONE]'' then data_events loads rest
      else (case loads (strip (drop 6 line)) of
              None \<Rightarrow> data_events loads rest
            | Some e \<Rightarrow> e # data_events loads rest))"

section \<open>The process-wide configuration: \<^verbatim>\<open>config.py\<close>\<close>

record RuntimeConfig =
  target_base_url :: string
  message_dump_path :: "string option"
  tool_dump_path :: "string option"
  disable_strict_schemas :: bool
  force_tool_calling :: bool

text \<open>The field defaults of \<^verbatim>\<open>RuntimeConfig\<close>, read from the process environment
  (\<^verbatim>\<open>os.getenv\<close>) when the object is made.\<close>

definition default_config :: "(string \<rightharpoonup> string) \<Rightarrow> RuntimeConfig" where
  "default_config env =
     \<lparr> target_base_url =
         (case env ''TARGET_BASE_URL'' of None \<Rightarrow> ''https://api.openai.com/v1'' | Some u \<Rightarrow> u),
       message_dump_path = env ''MESSAGE_DUMP_PATH'',
       tool_dump_path = env ''TOOL_DUMP_PATH'',
       disable_strict_schemas =
         (case env ''DISABLE_STRICT_SCHEMAS'' of None \<Rightarrow> False | Some s \<Rightarrow> s \<noteq> []),
       force_tool_calling =
         (case env ''FORCE_TOOL_CALLING'' of None \<Rightarrow> False | Some s \<Rightarrow> s \<noteq> []) \<rparr>"

text \<open>
  \<^verbatim>\<open>get_config\<close>: the module variable \<^verbatim>\<open>_global_config\<close> is the state, \<open>None\<close> until the
  first call. The result is the configuration and the new value of the variable.
\<close>

definition get_config ::
  "(string \<rightharpoonup> string) \<Rightarrow> RuntimeConfig option \<Rightarrow> RuntimeConfig \<times> RuntimeConfig option" where
  "get_config env g =
     (case g of
        None \<Rightarrow> (default_config env, Some (default_config env))
      | Some c \<Rightarrow> (c, Some c))"

text \<open>One entry of the dictionary given to \<^verbatim>\<open>update_config\<close>, for a declared field and with
  a value of the field's type.\<close>

datatype field_update =
    Set_target_base_url string
  | Set_message_dump_path "string option"
  | Set_tool_dump_path "string option"
  | Set_disable_strict_schemas bool
  | Set_force_tool_calling bool

fun set_field :: "field_update \<Rightarrow> RuntimeConfig \<Rightarrow> RuntimeConfig" where
  "set_field (Set_target_base_url u) c = c\<lparr> target_base_url := u \<rparr>"
| "set_field (Set_message_dump_path p) c = c\<lparr> message_dump_path := p \<rparr>"
| "set_field (Set_tool_dump_path p) c = c\<lparr> tool_dump_path := p \<rparr>"
| "set_field (Set_disable_strict_schemas b) c = c\<lparr> disable_strict_schemas := b \<rparr>"
| "set_field (Set_force_tool_calling b) c = c\<lparr> force_tool_calling := b \<rparr>"

text \<open>\<^verbatim>\<open>current.model_copy(update=data)\<close>.\<close>

definition model_copy :: "RuntimeConfig \<Rightarrow> field_update list \<Rightarrow> RuntimeConfig" where
  "model_copy current data = fold set_field data current"

definition update_config ::
  "(string \<rightharpoonup> string) \<Rightarrow> field_update list \<Rightarrow> RuntimeConfig option
     \<Rightarrow> RuntimeConfig \<times> RuntimeConfig option" where
  "update_config env data g =
     (case get_config env g of
        (current, g1) \<Rightarrow> (model_copy current data, Some (model_copy current data)))"

text \<open>
  The configuration reads of one chat-completion request. \<^verbatim>\<open>process_request\<close> calls
  \<^verbatim>\<open>get_config()\<close> once (line 90) and works with that value. \<^verbatim>\<open>create_completion\<close> calls
  \<^verbatim>\<open>get_config()\<close> again for the base URL when it issues the backend call (line 220 for a
  stream, inside the generator that runs after the handler has returned; line 237
  otherwise). \<open>between\<close> lists the dictionaries of the \<^verbatim>\<open>update_config\<close> calls
  (\<^verbatim>\<open>POST /api/config\<close>) the server serves between the two reads. The result is the
  configuration \<^verbatim>\<open>process_request\<close> worked with, the base URL of the backend call, and the
  module variable afterwards.
\<close>

definition request_config_reads ::
  "(string \<rightharpoonup> string) \<Rightarrow> RuntimeConfig option \<Rightarrow> field_update list list
     \<Rightarrow> RuntimeConfig \<times> string \<times> RuntimeConfig option" where
  "request_config_reads env g between =
     (case get_config env g of
        (cfg, g1) \<Rightarrow>
          (case get_config env (fold (\<lambda>data g'. snd (update_config env data g')) between g1) of
             (cfg2, g2) \<Rightarrow> (cfg, target_base_url cfg2, g2)))"

section \<open>The outbound rewrite: \<^verbatim>\<open>process_request\<close>\<close>

text \<open>
  The request is the value \<^verbatim>\<open>request.json()\<close> returned, whatever its shape.
  \<^verbatim>\<open>x[k]\<close> and \<^verbatim>\<open>x[k] = v\<close> for a string \<^verbatim>\<open>k\<close>: only a dictionary takes a string key.
\<close>

fun getitem :: "json \<Rightarrow> string \<Rightarrow> py_error + json" where
  "getitem (JObj kvs) k = (case map_of kvs k of None \<Rightarrow> Inl KeyError | Some v \<Rightarrow> Inr v)"
| "getitem _ k = Inl TypeError"

fun setitem :: "json \<Rightarrow> string \<Rightarrow> json \<Rightarrow> py_error + json" where
  "setitem (JObj kvs) k v = Inr (JObj (dict_set k v kvs))"
| "setitem _ k v = Inl TypeError"

text \<open>\<^verbatim>\<open>request["messages"][0][k] = v\<close>, on the value of the request (lines 104 and 105).\<close>

fun set_message0 :: "json \<Rightarrow> string \<Rightarrow> json \<Rightarrow> py_error + json" where
  "set_message0 (JObj rkvs) k v =
     (case map_of rkvs ''messages'' of
        None \<Rightarrow> Inl KeyError
      | Some (JArr []) \<Rightarrow> Inl IndexError
      | Some (JArr (JObj mkvs # rest)) \<Rightarrow>
          Inr (JObj (dict_set ''messages'' (JArr (JObj (dict_set k v mkvs) # rest)) rkvs))
      | Some (JArr (_ # rest)) \<Rightarrow> Inl TypeError
      | Some (JStr []) \<Rightarrow> Inl IndexError
      | Some (JObj _) \<Rightarrow> Inl KeyError
      | Some _ \<Rightarrow> Inl TypeError)"
| "set_message0 _ k v = Inl TypeError"

text \<open>
  What \<^verbatim>\<open>process_request\<close> calls in the modules \<^verbatim>\<open>parser_control\<close> and
  \<^verbatim>\<open>regex_replacement\<close>, which are outside the sources at hand: \<^verbatim>\<open>build_tool_parser\<close>
  (it returns a parser and a prompt string), the parser's \<^verbatim>\<open>schemas\<close> (a list) and
  \<^verbatim>\<open>modify_xml_messages_to_tool_calls\<close>, and \<^verbatim>\<open>apply_replacement_to_messages\<close> (it
  returns a message list and the completion transform). Each call may raise. \<open>str_other\<close> is
  Python's \<^verbatim>\<open>str\<close> on a value that is not a string.
\<close>

record 'p collaborators =
  build_tool_parser :: "json \<Rightarrow> bool \<Rightarrow> py_error + 'p \<times> string"
  schemas :: "'p \<Rightarrow> json list"
  modify_xml_messages_to_tool_calls :: "'p \<Rightarrow> json \<Rightarrow> py_error + json"
  apply_replacement_to_messages :: "json \<Rightarrow> py_error + json \<times> (string \<Rightarrow> string)"
  str_other :: "json \<Rightarrow> string"

definition py_str :: "(json \<Rightarrow> string) \<Rightarrow> json \<Rightarrow> string" where
  "py_str other v = (case v of JStr s \<Rightarrow> s | _ \<Rightarrow> other v)"

text \<open>\<^verbatim>\<open>"\n".join(xs)\<close>.\<close>

fun join_lines :: "string list \<Rightarrow> string" where
  "join_lines [] = []"
| "join_lines [x] = x"
| "join_lines (x # y # ys) = x @ [CHR 0x0A] @ join_lines (y # ys)"

text \<open>Lines 93 to 100: the prompt made of the content of the first message. A content that
  is a list is replaced by the joined texts of its parts; any other content is taken as it
  is.\<close>

definition part_text :: "(json \<Rightarrow> string) \<Rightarrow> json \<Rightarrow> string list" where
  "part_text other t =
     (case t of
        JObj kvs \<Rightarrow> (case map_of kvs ''text'' of Some v \<Rightarrow> [py_str other v] | None \<Rightarrow> [])
      | _ \<Rightarrow> [])"

definition prompt_text :: "(json \<Rightarrow> string) \<Rightarrow> json \<Rightarrow> json" where
  "prompt_text other c =
     (case c of
        JArr ts \<Rightarrow> JStr (join_lines (concat (map (part_text other) ts)))
      | _ \<Rightarrow> c)"

text \<open>\<^verbatim>\<open>(request.get("tools") or []) + parser.schemas\<close> (line 107): only a list can be
  added to a list.\<close>

definition tools_plus :: "json \<Rightarrow> json list \<Rightarrow> py_error + json" where
  "tools_plus ts ss =
     (case py_or ts (JArr []) of
        JArr xs \<Rightarrow> Inr (JArr (xs @ ss))
      | _ \<Rightarrow> Inl TypeError)"

text \<open>Sequencing of steps that may raise.\<close>

definition bindE :: "py_error + 'a \<Rightarrow> ('a \<Rightarrow> py_error + 'b) \<Rightarrow> py_error + 'b" where
  "bindE m f = (case m of Inl e \<Rightarrow> Inl e | Inr x \<Rightarrow> f x)"

text \<open>The condition of line 91.\<close>

definition first_is_prompt :: "json \<Rightarrow> py_error + bool" where
  "first_is_prompt request =
     bindE (getitem request ''messages'') (\<lambda>ms.
       if \<not> truthy ms then Inr False
       else bindE (index0 ms) (\<lambda>m.
            bindE (getitem m ''role'') (\<lambda>ro.
            Inr (py_eq ro (JStr ''system'') \<or> py_eq ro (JStr ''user'')))))"

text \<open>Lines 92 to 100: \<^verbatim>\<open>system_prompt\<close>.\<close>

definition system_prompt_of :: "(json \<Rightarrow> string) \<Rightarrow> json \<Rightarrow> py_error + json" where
  "system_prompt_of other request =
     bindE (getitem request ''messages'') (\<lambda>ms.
     bindE (index0 ms) (\<lambda>m.
     bindE (getitem m ''content'') (\<lambda>c.
     Inr (prompt_text other c))))"

text \<open>Lines 106 and 107.\<close>

definition add_schemas :: "json list \<Rightarrow> json \<Rightarrow> py_error + json" where
  "add_schemas ss request =
     (if ss \<noteq> [] then
        bindE (dict_get request ''tools'' JNull) (\<lambda>ts.
        bindE (tools_plus ts ss) (\<lambda>ts'.
        setitem request ''tools'' ts'))
      else Inr request)"

text \<open>Lines 108 and 109.\<close>

definition force_tool_choice :: "bool \<Rightarrow> json \<Rightarrow> py_error + json" where
  "force_tool_choice force request =
     (if force then
        bindE (dict_get request ''tools'' JNull) (\<lambda>ts.
          if truthy ts then setitem request ''tool_choice'' (JStr ''required'')
          else Inr request)
      else Inr request)"

text \<open>
  Lines 91 to 109. The result is the request after the rewrite of its first message and the
  parser bound on the way; \<open>None\<close> for the parser when the branch is not taken and the
  variable \<^verbatim>\<open>parser\<close> stays unbound.
\<close>

definition rewrite_first ::
  "'p collaborators \<Rightarrow> RuntimeConfig \<Rightarrow> json \<Rightarrow> py_error + json \<times> 'p option" where
  "rewrite_first co cfg request =
     bindE (first_is_prompt request) (\<lambda>b.
       if \<not> b then Inr (request, None)
       else
         bindE (system_prompt_of (str_other co) request) (\<lambda>system_prompt.
         bindE (build_tool_parser co system_prompt (\<not> disable_strict_schemas cfg))
           (\<lambda>(parser, processed_system_prompt).
         bindE (set_message0 request ''role'' (JStr ''system'')) (\<lambda>request1.
         bindE (set_message0 request1 ''content'' (JStr processed_system_prompt)) (\<lambda>request2.
         bindE (add_schemas (schemas co parser) request2) (\<lambda>request3.
         bindE (force_tool_choice (force_tool_calling cfg) request3) (\<lambda>request4.
         Inr (request4, Some parser))))))))"

text \<open>
  Lines 116 to 121, one dump: nothing happens when no path is configured (\<open>None\<close> or the
  empty string); \<^verbatim>\<open>open(path, "w")\<close> raises when the file cannot be opened for writing
  (\<open>can_open\<close> is the file system's answer); otherwise the value is evaluated and written.
  \<open>Dump path v\<close> is the file \<open>path\<close> holding the serialised \<open>v\<close>.
\<close>

datatype dump = Dump string json

definition dump_json ::
  "(string \<Rightarrow> bool) \<Rightarrow> string option \<Rightarrow> py_error + json \<Rightarrow> dump list \<times> (py_error + unit)" where
  "dump_json can_open path v =
     (case path of
        None \<Rightarrow> ([], Inr ())
      | Some f \<Rightarrow>
          if f = [] then ([], Inr ())
          else if \<not> can_open f then ([], Inl OSError)
          else (case v of Inl e \<Rightarrow> ([], Inl e) | Inr j \<Rightarrow> ([Dump f j], Inr ())))"

text \<open>\<^verbatim>\<open>request.get("tools") or "[]"\<close> (line 121).\<close>

definition tools_or_text :: "json \<Rightarrow> py_error + json" where
  "tools_or_text request = bindE (dict_get request ''tools'' JNull) (\<lambda>ts. Inr (py_or ts (JStr ''[]'')))"

text \<open>Lines 116 to 121: the message dump, then the tool dump.\<close>

definition write_dumps ::
  "(string \<Rightarrow> bool) \<Rightarrow> RuntimeConfig \<Rightarrow> json \<Rightarrow> dump list \<times> (py_error + unit)" where
  "write_dumps can_open cfg request =
     (case dump_json can_open (message_dump_path cfg) (getitem request ''messages'') of
        (d1, Inl e) \<Rightarrow> (d1, Inl e)
      | (d1, Inr u) \<Rightarrow>
          (case dump_json can_open (tool_dump_path cfg) (tools_or_text request) of
             (d2, r) \<Rightarrow> (d1 @ d2, r)))"

text \<open>Lines 111 to 114: the message rewriter, then the replacement; the parser is given
  as it was bound, \<open>None\<close> when it was not.\<close>

definition rewrite_messages ::
  "'p collaborators \<Rightarrow> json \<Rightarrow> 'p option \<Rightarrow> py_error + json \<times> 'p \<times> (string \<Rightarrow> string)" where
  "rewrite_messages co request po =
     (case po of
        None \<Rightarrow> Inl UnboundLocalError
      | Some parser \<Rightarrow>
          bindE (getitem request ''messages'') (\<lambda>ms.
          bindE (modify_xml_messages_to_tool_calls co parser ms) (\<lambda>messages.
          bindE (apply_replacement_to_messages co messages)
            (\<lambda>(messages', apply_replacement_to_completion).
          bindE (setitem request ''messages'' messages') (\<lambda>request'.
          Inr (request', parser, apply_replacement_to_completion))))))"

text \<open>
  \<^verbatim>\<open>process_request\<close>, with the configuration it read at line 90. The result is the files
  written and either the exception raised or the rewritten request, the parser and the
  completion transform.
\<close>

definition process_request ::
  "'p collaborators \<Rightarrow> (string \<Rightarrow> bool) \<Rightarrow> RuntimeConfig \<Rightarrow> json
     \<Rightarrow> dump list \<times> (py_error + json \<times> 'p \<times> (string \<Rightarrow> string))" where
  "process_request co can_open cfg request =
     (case bindE (rewrite_first co cfg request) (\<lambda>(request1, po). rewrite_messages co request1 po) of
        Inl e \<Rightarrow> ([], Inl e)
      | Inr (request2, parser, apply_replacement_to_completion) \<Rightarrow>
          (case write_dumps can_open cfg request2 of
             (ds, Inl e) \<Rightarrow> (ds, Inl e)
           | (ds, Inr u) \<Rightarrow> (ds, Inr (request2, parser, apply_replacement_to_completion))))"

text \<open>The request's \<^verbatim>\<open>tools\<close> are absent, empty (or otherwise false) or a list, so that
  line 107 can add the schemas to them; and the tools they list.\<close>

definition tools_listed :: "(string \<times> json) list \<Rightarrow> bool" where
  "tools_listed rkvs =
     (case map_of rkvs ''tools'' of
        None \<Rightarrow> True
      | Some (JArr xs) \<Rightarrow> True
      | Some v \<Rightarrow> \<not> truthy v)"

definition listed_tools :: "(string \<times> json) list \<Rightarrow> json list" where
  "listed_tools rkvs = (case map_of rkvs ''tools'' of Some (JArr xs) \<Rightarrow> xs | _ \<Rightarrow> [])"

text \<open>No dump is configured for the path, or its file can be opened for writing; and the
  files a dump of \<open>v\<close> leaves then.\<close>

definition can_dump :: "(string \<Rightarrow> bool) \<Rightarrow> string option \<Rightarrow> bool" where
  "can_dump can_open path = (case path of None \<Rightarrow> True | Some f \<Rightarrow> f = [] \<or> can_open f)"

definition dumped :: "string option \<Rightarrow> json \<Rightarrow> dump list" where
  "dumped path v = (case path of None \<Rightarrow> [] | Some f \<Rightarrow> if f = [] then [] else [Dump f v])"

section \<open>Events that build a tool call\<close>

definition opt_str :: "json option \<Rightarrow> bool" where
  "opt_str v = (case v of None \<Rightarrow> True | Some (JStr s) \<Rightarrow> True | Some _ \<Rightarrow> False)"

definition str_or_empty :: "json option \<Rightarrow> string" where
  "str_or_empty v = (case v of Some (JStr s) \<Rightarrow> s | _ \<Rightarrow> [])"

text \<open>The pieces an event adds to the open fragment: what lines 190 to 192 append to
  \<^verbatim>\<open>tool_name\<close>, \<^verbatim>\<open>buffer\<close> and \<^verbatim>\<open>tool_call_id\<close>, and line 175 to the reasoning buffer.\<close>

definition frag_name :: "json \<Rightarrow> string" where
  "frag_name e = (case function0 e of Some fkvs \<Rightarrow> str_or_empty (map_of fkvs ''name'') | None \<Rightarrow> [])"

definition frag_args :: "json \<Rightarrow> string" where
  "frag_args e =
     (case function0 e of Some fkvs \<Rightarrow> str_or_empty (map_of fkvs ''arguments'') | None \<Rightarrow> [])"

definition frag_id :: "json \<Rightarrow> string" where
  "frag_id e = (case tool_call0 e of Some tkvs \<Rightarrow> str_or_empty (map_of tkvs ''id'') | None \<Rightarrow> [])"

definition ev_reasoning :: "json \<Rightarrow> string" where
  "ev_reasoning e = str_or_empty (delta_field e ''reasoning_content'')"

text \<open>The delta's \<^verbatim>\<open>reasoning_content\<close> is absent, empty or a string.\<close>

definition reasoning_ok :: "json \<Rightarrow> bool" where
  "reasoning_ok e =
     (case delta_field e ''reasoning_content'' of
        None \<Rightarrow> True
      | Some (JStr s) \<Rightarrow> True
      | Some v \<Rightarrow> \<not> truthy v)"

text \<open>
  An event that carries one fragment of the tool call with call index \<open>j\<close> on the choice
  \<open>c\<close>: the choice's index is \<open>c\<close>, the delta names no role or the assistant's, its first
  \<^verbatim>\<open>tool_calls\<close> entry has the index \<open>j\<close>, a \<^verbatim>\<open>function\<close> object, and strings (or nothing)
  for the name, the arguments and the id; the event has no finish reason at its top level.
\<close>

definition is_fragment :: "int \<Rightarrow> int \<Rightarrow> json \<Rightarrow> bool" where
  "is_fragment c j e =
     (choice_field e ''index'' = Some (JInt c)
      \<and> (case delta_field e ''role'' of None \<Rightarrow> True | Some ro \<Rightarrow> ro = JStr ''assistant'')
      \<and> reasoning_ok e
      \<and> (case tool_call0 e of
            None \<Rightarrow> False
          | Some tkvs \<Rightarrow> map_of tkvs ''index'' = Some (JInt j) \<and> opt_str (map_of tkvs ''id''))
      \<and> (case function0 e of
            None \<Rightarrow> False
          | Some fkvs \<Rightarrow> opt_str (map_of fkvs ''name'') \<and> opt_str (map_of fkvs ''arguments''))
      \<and> (case top_field e ''finish_reason'' of None \<Rightarrow> True | Some v \<Rightarrow> \<not> truthy v))"

text \<open>
  An event that ends the call: it has a delta, the delta carries no tool-call fragment, and
  a finish reason stands at the top level of the event or in its choice.
\<close>

definition is_terminal :: "json \<Rightarrow> bool" where
  "is_terminal e =
     (delta0 e \<noteq> None
      \<and> (case delta_field e ''tool_calls'' of None \<Rightarrow> True | Some v \<Rightarrow> \<not> truthy v)
      \<and> reasoning_ok e
      \<and> ((case top_field e ''finish_reason'' of None \<Rightarrow> False | Some v \<Rightarrow> truthy v)
         \<or> (case choice_field e ''finish_reason'' of None \<Rightarrow> False | Some v \<Rightarrow> truthy v)))"

text \<open>The line holds the event: the loop parses \<open>e\<close> from it.\<close>

definition event_line :: "(string \<Rightarrow> json option) \<Rightarrow> string \<Rightarrow> json \<Rightarrow> bool" where
  "event_line loads line e =
     (startswith line ''data: '' \<and> strip line \<noteq> ''data: [DONE]''
      \<and> loads (strip (drop 6 line)) = Some e)"

text \<open>The local variables after the events \<open>es\<close> have each added their pieces to the open
  fragment.\<close>

definition after_fragments :: "state \<Rightarrow> json list \<Rightarrow> state" where
  "after_fragments st es =
     st\<lparr> reasoning_content_buffer := reasoning_content_buffer st @ concat (map ev_reasoning es),
         tool_name := tool_name st @ concat (map frag_name es),
         buffer := buffer st @ concat (map frag_args es),
         tool_call_id := tool_call_id st @ concat (map frag_id es),
         last_chunk := (if es = [] then last_chunk st else Some (last es)) \<rparr>"

text \<open>The name, arguments text and call id of each flush line, in order.\<close>

fun flush_calls :: "out list \<Rightarrow> (string \<times> string \<times> string) list" where
  "flush_calls [] = []"
| "flush_calls (Flushed j n a i r # os) = (n, a, i) # flush_calls os"
| "flush_calls (_ # os) = flush_calls os"

section \<open>Predicates for the proofs\<close>

text \<open>
  Of a computation: every line it yields satisfies \<open>P\<close>, and the value it returns, if it
  returns, satisfies \<open>Q\<close>.
\<close>

definition okR :: "(out \<Rightarrow> bool) \<Rightarrow> ('a \<Rightarrow> bool) \<Rightarrow> 'a res \<Rightarrow> bool" where
  "okR P Q m = (list_all P (fst m) \<and> (case snd m of Inl e \<Rightarrow> True | Inr x \<Rightarrow> Q x))"

text \<open>
  Of a computation: if it raises, every line it yielded satisfies \<open>P\<close>; if it returns, it
  yielded lines that satisfy \<open>P\<close> and then one last line, which with the value returned
  satisfies \<open>F\<close>.
\<close>

definition shapeR :: "(out \<Rightarrow> bool) \<Rightarrow> (out \<Rightarrow> 'a \<Rightarrow> bool) \<Rightarrow> 'a res \<Rightarrow> bool" where
  "shapeR P F m =
     (case snd m of
        Inl e \<Rightarrow> list_all P (fst m)
      | Inr x \<Rightarrow> fst m \<noteq> [] \<and> list_all P (butlast (fst m)) \<and> F (last (fst m)) x)"

text \<open>A flush line whose carrier holds a non-empty \<^verbatim>\<open>tool_calls\<close> and whose arguments text
  is not empty.\<close>

fun flush_line :: "out \<Rightarrow> bool" where
  "flush_line (Flushed j n a i r) = (has_tool_calls j \<and> a \<noteq> [])"
| "flush_line _ = False"

text \<open>The carrier stored in the state, if there is one, holds a non-empty \<^verbatim>\<open>tool_calls\<close>;
  and when \<^verbatim>\<open>last_chunk\<close> is the object \<^verbatim>\<open>data\<close>, it has the fields of the event read.\<close>

definition carrier_ok :: "json \<Rightarrow> bool \<Rightarrow> state \<Rightarrow> bool" where
  "carrier_ok data aliased st =
     (case last_chunk st of
        None \<Rightarrow> \<not> aliased
      | Some lc \<Rightarrow> has_tool_calls lc \<and> (if aliased then same_fields lc data else True))"

text \<open>The line yielded at the end of an iteration: the event read, with its
  \<^verbatim>\<open>tool_calls\<close> and \<^verbatim>\<open>reasoning_content\<close> as they came.\<close>

fun forward_line :: "json \<Rightarrow> out \<Rightarrow> bool" where
  "forward_line data (Forwarded d) = same_fields d data"
| "forward_line data _ = False"

text \<open>Of a yielded line: if it is a flush line, its carrier holds a non-empty
  \<^verbatim>\<open>tool_calls\<close> and its arguments text is not empty.\<close>

fun flush_sound :: "out \<Rightarrow> bool" where
  "flush_sound (Flushed j n a i r) = (has_tool_calls j \<and> a \<noteq> [])"
| "flush_sound _ = True"

fun is_completed :: "outcome \<Rightarrow> bool" where
  "is_completed (Completed st) = True"
| "is_completed _ = False"

text \<open>A fragment with an arguments text has a carrier, and the role is the assistant's.\<close>

definition open_ok :: "state \<Rightarrow> bool" where
  "open_ok st = (buffer st = [] \<or> (last_chunk st \<noteq> None \<and> role st = JStr ''assistant''))"

text \<open>A fragment with an arguments text has for its carrier one of the events \<open>E\<close>, as it
  was read.\<close>

definition base_ok :: "json set \<Rightarrow> state \<Rightarrow> bool" where
  "base_ok E st = (buffer st = [] \<or> (\<exists>e\<in>E. last_chunk st = Some e))"

text \<open>A flush line whose carrier is one of the events \<open>E\<close> with the text of the flush
  written into the \<^verbatim>\<open>content\<close> of its delta.\<close>

fun flush_from ::
  "(string \<Rightarrow> string \<Rightarrow> string \<Rightarrow> string \<Rightarrow> string) \<Rightarrow> (string \<Rightarrow> string) \<Rightarrow> json set \<Rightarrow> out \<Rightarrow> bool" where
  "flush_from enc repl E (Flushed j n a i r) = (\<exists>e\<in>E. set_content e (repl (enc n a i r)) = Inr j)"
| "flush_from enc repl E _ = False"

text \<open>Of a yielded line: if it is a flush line, it is one in the sense above.\<close>

fun flush_traced ::
  "(string \<Rightarrow> string \<Rightarrow> string \<Rightarrow> string \<Rightarrow> string) \<Rightarrow> (string \<Rightarrow> string) \<Rightarrow> json set \<Rightarrow> out \<Rightarrow> bool" where
  "flush_traced enc repl E (Flushed j n a i r) = (\<exists>e\<in>E. set_content e (repl (enc n a i r)) = Inr j)"
| "flush_traced enc repl E _ = True"

text \<open>The line yielded at the end of an iteration for the event read.\<close>

fun forward_from :: "json \<Rightarrow> out \<Rightarrow> bool" where
  "forward_from data (Forwarded t) = forward_of data t"
| "forward_from data _ = False"

section \<open>Sample inputs\<close>

definition sample_enc :: "string \<Rightarrow> string \<Rightarrow> string \<Rightarrow> string \<Rightarrow> string" where
  "sample_enc n a i r = r @ ''<'' @ n @ '' id='' @ i @ ''>'' @ a"

text \<open>A chat-completion chunk that carries one tool-call fragment.\<close>

definition sample_fragment :: "(string \<times> json) list \<Rightarrow> int \<Rightarrow> int \<Rightarrow> string \<Rightarrow> string \<Rightarrow> string \<Rightarrow> json" where
  "sample_fragment ro c j i n a =
     JObj [(''choices'', JArr [JObj [(''index'', JInt c),
       (''delta'', JObj (ro @ [(''tool_calls'', JArr [JObj [(''index'', JInt j), (''id'', JStr i),
          (''function'', JObj [(''name'', JStr n), (''arguments'', JStr a)])]])]))]])]"

text \<open>The last chunk of a chat completion as the backend's protocol has it: the finish
  reason is a field of the choice.\<close>

definition sample_finish :: json where
  "sample_finish =
     JObj [(''choices'', JArr [JObj [(''index'', JInt 0), (''delta'', JObj []),
       (''finish_reason'', JStr ''tool_calls'')]])]"

text \<open>The same chunk with the finish reason at the top level of the event.\<close>

definition sample_finish_top :: json where
  "sample_finish_top =
     JObj [(''choices'', JArr [JObj [(''index'', JInt 0), (''delta'', JObj [])]]),
       (''finish_reason'', JStr ''tool_calls'')]"

text \<open>A stand-in for \<^verbatim>\<open>json.loads\<close> that knows the sample events by short names.\<close>

definition sample_loads :: "string \<Rightarrow> json option" where
  "sample_loads = map_of
     [(''a1'', sample_fragment [(''role'', JStr ''assistant'')] 0 0 ''c1'' ''f'' ''{}''),
      (''a2'', sample_fragment [] 0 0 [] [] ''x''),
      (''n1'', sample_fragment [(''role'', JStr ''assistant'')] 0 0 ''c1'' ''f'' []),
      (''n2'', sample_fragment [] 0 1 ''c2'' ''g'' ''{}''),
      (''m2'', sample_fragment [] 1 0 ''c2'' ''g'' ''{}''),
      (''r1'', sample_fragment [(''role'', JStr ''assistant''), (''reasoning_content'', JStr ''hm'')]
                 0 0 ''c1'' ''f'' ''{}''),
      (''fin'', sample_finish)]"

text \<open>A stream of two fragments of one call, then the last chunk, with an empty line and
  a comment line between them.\<close>

definition sample_call :: "json list" where
  "sample_call =
     [sample_fragment [(''role'', JStr ''assistant'')] 0 0 ''c1'' ''f'' ''{}'',
      sample_fragment [] 0 0 [] [] ''x'']"

definition sample_stream :: response where
  "sample_stream =
     \<lparr> status_code = 200, body_text = [],
       body_lines = [''data: a1'', [], ''data: a2'', '': keep-alive'', ''data: fin''] \<rparr>"

text \<open>The second fragment of \<open>sample_call\<close> after it has carried the flush of the call.\<close>

definition sample_carrier :: json where
  "sample_carrier =
     JObj [(''choices'', JArr [JObj [(''index'', JInt 0),
       (''delta'', JObj [(''tool_calls'', JArr [JObj [(''index'', JInt 0), (''id'', JStr []),
          (''function'', JObj [(''name'', JStr []), (''arguments'', JStr ''x'')])]]),
          (''content'', JStr ''<f id=c1>{}x'')])]])]"

text \<open>The local variables after the first fragment of \<open>sample_call\<close>.\<close>

definition sample_open :: state where
  "sample_open =
     \<lparr> buffer = ''{}'',
       last_chunk = Some (sample_fragment [(''role'', JStr ''assistant'')] 0 0 ''c1'' ''f'' ''{}''),
       role = JStr ''assistant'', choice_index = JInt 0, tool_call_index = JInt 0,
       tool_call_id = ''c1'', tool_name = ''f'', reasoning_content_buffer = [] \<rparr>"

text \<open>A chunk that carries the last fragment of a call together with a finish reason at
  its top level; \<open>content\<close> is what else its delta holds.\<close>

definition sample_closing :: "(string \<times> json) list \<Rightarrow> string \<Rightarrow> json" where
  "sample_closing content fr =
     JObj [(''choices'', JArr [JObj [(''index'', JInt 0),
       (''delta'', JObj ([(''tool_calls'', JArr [JObj [(''index'', JInt 0),
          (''function'', JObj [(''arguments'', JStr ''x'')])]])] @ content))]]),
       (''finish_reason'', JStr fr)]"

definition sample_loads_closing :: "string \<Rightarrow> json option" where
  "sample_loads_closing = map_of
     [(''a1'', sample_fragment [(''role'', JStr ''assistant'')] 0 0 ''c1'' ''f'' ''{}''),
      (''t1'', sample_closing [] ''tool_calls'')]"

text \<open>Stand-ins for the modules outside the sources: a parser that finds one tool, a
  rewriter and a replacement that change nothing; and a configuration that forces tool
  calling and dumps the messages.\<close>

definition sample_collaborators :: "unit collaborators" where
  "sample_collaborators =
     \<lparr> build_tool_parser =
         (\<lambda>prompt strict. case prompt of JStr s \<Rightarrow> Inr ((), ''P:'' @ s) | _ \<Rightarrow> Inl TypeError),
       schemas = (\<lambda>p. [JObj [(''type'', JStr ''function'')]]),
       modify_xml_messages_to_tool_calls = (\<lambda>p ms. Inr ms),
       apply_replacement_to_messages = (\<lambda>ms. Inr (ms, id)),
       str_other = (\<lambda>v. []) \<rparr>"

definition sample_config :: RuntimeConfig where
  "sample_config =
     \<lparr> target_base_url = ''https://api.openai.com/v1'', message_dump_path = Some ''m.json'',
       tool_dump_path = None, disable_strict_schemas = False, force_tool_calling = True \<rparr>"

definition sample_message :: "string \<Rightarrow> string \<Rightarrow> json" where
  "sample_message r c = JObj [(''role'', JStr r), (''content'', JStr c)]"

definition sample_request :: "json list \<Rightarrow> json" where
  "sample_request ms = JObj [(''model'', JStr ''m''), (''messages'', JArr ms)]"

section \<open>Basic facts\<close>

lemma bindR_liftE_Inr [simp]: "bindR (liftE (Inr x)) f = f x"
  by (simp add: bindR_def liftE_def split: prod.splits)

lemma bindR_liftE_Inl [simp]: "bindR (liftE (Inl e)) f = ([], Inl e)"
  by (simp add: bindR_def liftE_def)

lemma bindR_retR [simp]: "bindR (retR x) f = f x"
  by (simp add: bindR_def retR_def split: prod.splits)

lemma bindR_pair_Inr [simp]: "bindR (os, Inr x) f = (os @ fst (f x), snd (f x))"
  by (simp add: bindR_def split: prod.splits)

lemma bindR_pair_Inl [simp]: "bindR (os, Inl e) f = (os, Inl e)"
  by (simp add: bindR_def)

lemma flush_if_empty [simp]: "buffer st = [] \<Longrightarrow> flush_if c enc repl st = retR st"
  by (simp add: flush_if_def)

lemma flush_if_False [simp]: "flush_if False enc repl st = retR st"
  by (simp add: flush_if_def)

lemmas step_defs = process_event_def parse_event_def boundary_def after_boundary_def
  accumulate_def add_fragment_def finish_def flush_if_def create_tool_call_def set_content_def
  py_or_def dict_set_def retR_def Let_def

lemmas line_defs = startswith_def strip_def is_space_def

lemmas sample_defs = sample_fragment_def sample_finish_def sample_loads_def sample_enc_def
  init_def

lemma okR_retR: "Q x \<Longrightarrow> okR P Q (retR x)"
  by (simp add: okR_def retR_def)

lemma okR_liftE: "(\<And>x. m = Inr x \<Longrightarrow> Q x) \<Longrightarrow> okR P Q (liftE m)"
  by (cases m) (simp_all add: okR_def liftE_def)

lemma okR_bindR:
  assumes "okR P R m" and "\<And>x. R x \<Longrightarrow> okR P Q (f x)"
  shows "okR P Q (bindR m f)"
proof (cases m)
  case (Pair o1 r)
  show ?thesis
  proof (cases r)
    case (Inl e)
    with Pair assms(1) show ?thesis by (simp add: okR_def)
  next
    case (Inr x)
    with Pair assms(1) have "R x" and "list_all P o1" by (simp_all add: okR_def)
    with assms(2) [of x] Pair Inr show ?thesis
      by (cases "f x") (simp add: okR_def)
  qed
qed

lemma okR_weaken: "okR P Q m \<Longrightarrow> (\<And>x. Q x \<Longrightarrow> Q' x) \<Longrightarrow> okR P Q' m"
  by (cases m) (auto simp: okR_def split: sum.splits)

lemma shapeR_bindR:
  assumes "okR P R m" and "\<And>x. R x \<Longrightarrow> shapeR P F (f x)"
  shows "shapeR P F (bindR m f)"
proof (cases m)
  case (Pair o1 r)
  show ?thesis
  proof (cases r)
    case (Inl e)
    with Pair assms(1) show ?thesis by (simp add: okR_def shapeR_def)
  next
    case (Inr x)
    with Pair assms(1) have "R x" and "list_all P o1" by (simp_all add: okR_def)
    with assms(2) [of x] Pair Inr show ?thesis
      by (cases "f x") (auto simp: shapeR_def butlast_append split: sum.splits)
  qed
qed

lemma set_content_InrE:
  assumes "set_content lc x = Inr lc'"
  obtains kvs ckvs cs dkvs where "lc = JObj kvs"
    and "map_of kvs ''choices'' = Some (JArr (JObj ckvs # cs))"
    and "map_of ckvs ''delta'' = Some (JObj dkvs)"
    and "lc' = JObj (dict_set ''choices''
                      (JArr (JObj (dict_set ''delta''
                        (JObj (dict_set ''content'' (JStr x) dkvs)) ckvs) # cs)) kvs)"
  using assms unfolding set_content_def
  by (auto split: json.splits option.splits list.splits)

lemma delta_field_set_content:
  assumes "set_content lc x = Inr lc'" and "k \<noteq> ''content''"
  shows "delta_field lc' k = delta_field lc k"
proof -
  from assms(1) obtain kvs ckvs cs dkvs where "lc = JObj kvs"
    and "map_of kvs ''choices'' = Some (JArr (JObj ckvs # cs))"
    and "map_of ckvs ''delta'' = Some (JObj dkvs)"
    and "lc' = JObj (dict_set ''choices''
                      (JArr (JObj (dict_set ''delta''
                        (JObj (dict_set ''content'' (JStr x) dkvs)) ckvs) # cs)) kvs)"
    by (rule set_content_InrE)
  with assms(2) show ?thesis
    by (simp add: delta_field_def delta0_def choice0_def dict_set_def update_conv')
qed

lemma delta_field_set_finish_reason:
  "delta_field (JObj (dict_set ''finish_reason'' v kvs)) k = delta_field (JObj kvs) k"
  by (simp add: delta_field_def delta0_def choice0_def dict_set_def update_conv')

lemma has_tool_calls_set_content:
  "set_content lc x = Inr lc' \<Longrightarrow> has_tool_calls lc' = has_tool_calls lc"
  by (simp add: has_tool_calls_def delta_field_set_content)

lemma same_fields_set_content:
  "set_content lc x = Inr lc' \<Longrightarrow> same_fields lc' d = same_fields lc d"
  by (simp add: same_fields_def delta_field_set_content)

lemma same_fields_refl [simp]: "same_fields d d"
  by (simp add: same_fields_def)

lemma create_tool_call_ok:
  assumes "carrier_ok data al st" and "buffer st \<noteq> []"
  shows "okR flush_line (\<lambda>st'. carrier_ok data al st' \<and> buffer st' = []) (create_tool_call enc repl st)"
  using assms
  by (auto simp: create_tool_call_def okR_def carrier_ok_def has_tool_calls_set_content
      same_fields_set_content split: option.splits sum.splits)

lemma flush_if_ok:
  assumes "carrier_ok data al st"
  shows "okR flush_line (carrier_ok data al) (flush_if c enc repl st)"
proof (cases "c \<and> buffer st \<noteq> []")
  case True
  then show ?thesis
    using create_tool_call_ok [OF assms, of enc repl]
    by (auto simp: flush_if_def intro: okR_weaken)
next
  case False
  then show ?thesis using assms by (auto simp: flush_if_def okR_retR)
qed

lemma parse_event_InrE:
  assumes "parse_event st data = Inr p"
  obtains choices choice d rc where
    "dict_get data ''choices'' JNull = Inr choices"
    "index0 (py_or choices (JArr [JObj []])) = Inr choice"
    "dict_get choice ''index'' (choice_index st) = Inr (choice_index_of_delta p)"
    "dict_get choice ''delta'' JNull = Inr d"
    "delta p = py_or d (JObj [])"
    "dict_get (delta p) ''role'' (role st) = Inr (role_in_delta p)"
    "dict_get (delta p) ''tool_calls'' JNull = Inr (tool_calls_in_delta p)"
    "dict_get (delta p) ''reasoning_content'' JNull = Inr rc"
    "str_add (reasoning_content_buffer st) (py_or rc (JStr [])) = Inr (reasoning_after p)"
  using assms unfolding parse_event_def
  by (auto split: sum.splits)

lemma dict_get_truthy:
  assumes "dict_get d k JNull = Inr v" and "truthy v"
  obtains kvs where "d = JObj kvs" and "map_of kvs k = Some v"
  using assms by (cases d) (auto split: option.splits)

lemma py_or_obj:
  assumes "py_or d (JObj []) = JObj dkvs" and "dkvs \<noteq> []"
  shows "d = JObj dkvs"
  using assms by (auto simp: py_or_def split: if_splits)

lemma index0_py_or_obj:
  assumes "index0 (py_or x (JArr [JObj []])) = Inr (JObj ckvs)" and "ckvs \<noteq> []"
  obtains cs where "x = JArr (JObj ckvs # cs)"
proof (cases "truthy x")
  case True
  with assms(1) have "index0 x = Inr (JObj ckvs)" by (simp add: py_or_def)
  then show ?thesis using that
    by (cases x rule: index0.cases) auto
next
  case False
  with assms show ?thesis by (simp add: py_or_def)
qed

lemma parse_event_tool_calls:
  assumes "parse_event st data = Inr p" and "truthy (tool_calls_in_delta p)"
  shows "delta_field data ''tool_calls'' = Some (tool_calls_in_delta p)"
proof -
  from assms(1) obtain choices choice d where
    c: "dict_get data ''choices'' JNull = Inr choices"
    and i: "index0 (py_or choices (JArr [JObj []])) = Inr choice"
    and ci: "dict_get choice ''index'' (choice_index st) = Inr (choice_index_of_delta p)"
    and d: "dict_get choice ''delta'' JNull = Inr d"
    and dp: "delta p = py_or d (JObj [])"
    and t: "dict_get (delta p) ''tool_calls'' JNull = Inr (tool_calls_in_delta p)"
    by (rule parse_event_InrE)
  from t assms(2) obtain dkvs where dk: "delta p = JObj dkvs"
    and tk: "map_of dkvs ''tool_calls'' = Some (tool_calls_in_delta p)"
    by (rule dict_get_truthy)
  from tk have "dkvs \<noteq> []" by auto
  from dp dk have "py_or d (JObj []) = JObj dkvs" by simp
  from this \<open>dkvs \<noteq> []\<close> have dd: "d = JObj dkvs" by (rule py_or_obj)
  with d \<open>dkvs \<noteq> []\<close> obtain ckvs where ck: "choice = JObj ckvs"
    and cd: "map_of ckvs ''delta'' = Some (JObj dkvs)"
    by (auto elim: dict_get_truthy)
  from cd have "ckvs \<noteq> []" by auto
  with i ck obtain cs where "choices = JArr (JObj ckvs # cs)"
    by (auto elim: index0_py_or_obj)
  with c obtain kvs where "data = JObj kvs"
    and "map_of kvs ''choices'' = Some (JArr (JObj ckvs # cs))"
    by (auto elim: dict_get_truthy)
  with cd tk show ?thesis
    by (simp add: delta_field_def delta0_def choice0_def)
qed

lemma index0_truthy:
  assumes "index0 (py_or tcs (JArr [JObj []])) = Inr tc" and "truthy tc"
  shows "truthy tcs"
  using assms by (cases "truthy tcs") (auto simp: py_or_def)

lemma okR_bind_liftE:
  "(\<And>x. m = Inr x \<Longrightarrow> okR P Q (f x)) \<Longrightarrow> okR P Q (bindR (liftE m) f)"
  by (cases m) (simp_all add: okR_def)

lemma shapeR_bind_liftE:
  "(\<And>x. m = Inr x \<Longrightarrow> shapeR P F (f x)) \<Longrightarrow> shapeR P F (bindR (liftE m) f)"
  by (cases m) (simp_all add: shapeR_def)

lemma carrier_ok_False: "carrier_ok d False st = carrier_ok d' False st"
  by (simp add: carrier_ok_def split: option.splits)

lemma carrier_ok_weaken: "carrier_ok d al st \<Longrightarrow> carrier_ok d' False st"
  by (auto simp: carrier_ok_def split: option.splits)

lemma add_fragment_ok:
  assumes "carrier_ok data False st" and "truthy tool_call \<Longrightarrow> has_tool_calls data"
  shows "okR flush_line (\<lambda>(st', al). carrier_ok data al st') (add_fragment data tool_call st)"
  using assms unfolding add_fragment_def
  by (auto intro!: okR_bind_liftE okR_retR simp: carrier_ok_def split: option.splits)

lemma accumulate_ok:
  assumes "carrier_ok data False st" and "truthy tcs \<Longrightarrow> has_tool_calls data"
  shows "okR flush_line (\<lambda>(st', al). carrier_ok data al st') (accumulate enc repl data tcs st)"
  unfolding accumulate_def
proof (intro okR_bind_liftE)
  fix tool_call idx
  assume tc: "index0 (py_or tcs (JArr [JObj []])) = Inr tool_call"
  show "okR flush_line (\<lambda>(st', al). carrier_ok data al st')
          (bindR (flush_if (\<not> py_eq idx (tool_call_index st)) enc repl st)
             (add_fragment data tool_call))"
  proof (rule okR_bindR [OF flush_if_ok [OF assms(1)]])
    fix st1
    assume "carrier_ok data False st1"
    then show "okR flush_line (\<lambda>(st', al). carrier_ok data al st') (add_fragment data tool_call st1)"
      using assms(2) index0_truthy [OF tc] by (intro add_fragment_ok) auto
  qed
qed

lemma same_fields_set_finish_reason:
  "same_fields (case d of JObj kvs \<Rightarrow> JObj (dict_set ''finish_reason'' v kvs) | _ \<Rightarrow> d) e =
     same_fields d e"
  by (cases d) (simp_all add: same_fields_def delta_field_set_finish_reason)

lemma has_tool_calls_set_finish_reason:
  "has_tool_calls (case d of JObj kvs \<Rightarrow> JObj (dict_set ''finish_reason'' v kvs) | _ \<Rightarrow> d) =
     has_tool_calls d"
  by (cases d) (simp_all add: has_tool_calls_def delta_field_set_finish_reason)

lemma finish_shape:
  assumes "carrier_ok data al st"
  shows "shapeR flush_line (\<lambda>ln st'. forward_line data ln \<and> carrier_ok data False st')
           (finish enc repl data al st)"
  unfolding finish_def Let_def
  apply (rule shapeR_bind_liftE)
  apply (rule shapeR_bindR [OF flush_if_ok [OF assms]])
  apply (rule shapeR_bind_liftE)
  apply (auto simp: shapeR_def carrier_ok_def same_fields_set_finish_reason
          has_tool_calls_set_finish_reason split: option.splits)
  done

lemma after_boundary_shape:
  assumes "carrier_ok data False st" and "truthy (tool_calls_in_delta p) \<Longrightarrow> has_tool_calls data"
  shows "shapeR flush_line (\<lambda>ln st'. forward_line data ln \<and> carrier_ok data False st')
           (after_boundary enc repl data p st)"
proof -
  let ?st2 = "st\<lparr> choice_index := choice_index_of_delta p, role := role_in_delta p \<rparr>"
  have c2: "carrier_ok data False ?st2"
    using assms(1) by (simp add: carrier_ok_def split: option.splits)
  have "okR flush_line (\<lambda>(st', al). carrier_ok data al st')
          (if py_eq (role_in_delta p) (JStr ''assistant'')
           then accumulate enc repl data (tool_calls_in_delta p) ?st2
           else retR (?st2, False))"
    using accumulate_ok [OF c2, of "tool_calls_in_delta p" enc repl] assms(2) c2
    by (auto intro: okR_retR)
  then show ?thesis
    unfolding after_boundary_def Let_def
    by (rule shapeR_bindR) (auto intro: finish_shape)
qed

lemma process_event_shape:
  assumes "carrier_ok d0 False st"
  shows "shapeR flush_line (\<lambda>ln st'. forward_line data ln \<and> carrier_ok d0 False st')
           (process_event enc repl st data)"
  unfolding process_event_def
proof (rule shapeR_bind_liftE)
  fix p
  assume p: "parse_event st data = Inr p"
  have c1: "carrier_ok data False (st\<lparr> reasoning_content_buffer := reasoning_after p \<rparr>)"
    using assms by (simp add: carrier_ok_def split: option.splits)
  have tc: "has_tool_calls data" if "truthy (tool_calls_in_delta p)"
    using parse_event_tool_calls [OF p that] that by (simp add: has_tool_calls_def)
  have "shapeR flush_line (\<lambda>ln st'. forward_line data ln \<and> carrier_ok data False st')
     (bindR (flush_if (boundary st p) enc repl (st\<lparr> reasoning_content_buffer := reasoning_after p \<rparr>))
        (after_boundary enc repl data p))"
    by (rule shapeR_bindR [OF flush_if_ok [OF c1]]) (rule after_boundary_shape, simp_all add: tc)
  then show "shapeR flush_line (\<lambda>ln st'. forward_line data ln \<and> carrier_ok d0 False st')
     (bindR (flush_if (boundary st p) enc repl (st\<lparr> reasoning_content_buffer := reasoning_after p \<rparr>))
        (after_boundary enc repl data p))"
    by (simp add: carrier_ok_False [of data _ d0])
qed

lemma forwarded_append [simp]: "forwarded (xs @ ys) = forwarded xs @ forwarded ys"
  by (induction xs rule: forwarded.induct) simp_all

lemma forwarded_flush_lines: "list_all flush_line xs \<Longrightarrow> forwarded xs = []"
  by (induction xs rule: forwarded.induct) simp_all

lemma flush_line_sound: "list_all flush_line xs \<Longrightarrow> list_all flush_sound xs"
  by (induction xs rule: forwarded.induct) simp_all

lemma process_event_Inl:
  assumes "carrier_ok d0 False st" and "process_event enc repl st data = (o1, Inl e)"
  shows "list_all flush_line o1"
  using process_event_shape [OF assms(1), of data enc repl] assms(2)
  by (simp add: shapeR_def)

lemma process_event_Inr:
  assumes "carrier_ok d0 False st" and "process_event enc repl st data = (o1, Inr st1)"
  obtains pre d where "o1 = pre @ [Forwarded d]" and "list_all flush_line pre"
    and "same_fields d data" and "carrier_ok d0 False st1"
proof -
  from process_event_shape [OF assms(1), of data enc repl] assms(2)
  have ne: "o1 \<noteq> []" and pre: "list_all flush_line (butlast o1)"
    and l: "forward_line data (last o1)" and c: "carrier_ok d0 False st1"
    by (simp_all add: shapeR_def)
  from l obtain d where d: "last o1 = Forwarded d" and sf: "same_fields d data"
    by (cases "last o1") simp_all
  from ne d have "o1 = butlast o1 @ [Forwarded d]"
    by (metis append_butlast_last_id)
  from that [OF this pre sf c] show ?thesis .
qed

lemma flush_if_sound:
  assumes "carrier_ok d0 False st" and "flush_if c enc repl st = (o1, r)"
  shows "list_all flush_line o1 \<and> (case r of Inl e \<Rightarrow> True | Inr st1 \<Rightarrow> carrier_ok d0 False st1)"
  using flush_if_ok [OF assms(1), of c enc repl] assms(2) by (simp add: okR_def)

lemma stream_loop_fields:
  assumes "carrier_ok d0 False st"
    and "stream_loop loads enc repl disc k st lines = (outs, oc)"
  shows "list_all2 same_fields (forwarded outs)
           (take (length (forwarded outs)) (data_events loads lines))
         \<and> list_all flush_sound outs
         \<and> (is_completed oc \<longrightarrow> length (forwarded outs) = length (data_events loads lines))"
  using assms
proof (induction lines arbitrary: k st outs oc)
  case Nil
  then show ?case by auto
next
  case (Cons line rest)
  show ?case
  proof (cases "disc k")
    case True
    with Cons.prems show ?thesis by auto
  next
    case nd: False
    show ?thesis
    proof (cases "startswith line ''data: ''")
      case False
      with nd Cons.prems have "stream_loop loads enc repl disc (Suc k) st rest = (outs, oc)"
        by simp
      from Cons.IH [OF Cons.prems(1) this] False show ?thesis by simp
    next
      case sw: True
      show ?thesis
      proof (cases "strip line = ''data: [DONE]''")
        case True
        obtain o1 r where f: "flush_if True enc repl st = (o1, r)" by (cases "flush_if True enc repl st")
        from flush_if_sound [OF Cons.prems(1) f]
        have fl: "list_all flush_line o1"
          and c1: "case r of Inl e \<Rightarrow> True | Inr st1 \<Rightarrow> carrier_ok d0 False st1" by simp_all
        show ?thesis
        proof (cases r)
          case (Inl e)
          with nd sw True f Cons.prems(2) have "outs = o1" and "oc = Raised e" by simp_all
          with fl show ?thesis by (simp add: forwarded_flush_lines flush_line_sound)
        next
          case (Inr st1)
          obtain o2 r2 where l: "stream_loop loads enc repl disc (Suc k) st1 rest = (o2, r2)"
            by (cases "stream_loop loads enc repl disc (Suc k) st1 rest")
          from Inr c1 have "carrier_ok d0 False st1" by simp
          from Cons.IH [OF this l] have ih: "list_all2 same_fields (forwarded o2)
              (take (length (forwarded o2)) (data_events loads rest))
            \<and> list_all flush_sound o2
            \<and> (is_completed r2 \<longrightarrow> length (forwarded o2) = length (data_events loads rest))" .
          from nd sw True f Inr l Cons.prems(2)
          have "outs = o1 @ [Raw (line @ [CHR 0x0A, CHR 0x0A])] @ o2" and "oc = r2" by simp_all
          with ih fl True show ?thesis
            by (simp add: forwarded_flush_lines flush_line_sound)
        qed
      next
        case nds: False
        show ?thesis
        proof (cases "loads (strip (drop 6 line))")
          case None
          with nd sw nds Cons.prems(2) show ?thesis by auto
        next
          case (Some data)
          obtain o1 r where pe: "process_event enc repl st data = (o1, r)"
            by (cases "process_event enc repl st data")
          show ?thesis
          proof (cases r)
            case (Inl e)
            with nd sw nds Some pe Cons.prems(2) have "outs = o1" and "oc = Raised e" by simp_all
            with process_event_Inl [OF Cons.prems(1) pe [unfolded Inl]] show ?thesis
              by (simp add: forwarded_flush_lines flush_line_sound)
          next
            case (Inr st1)
            from process_event_Inr [OF Cons.prems(1) pe [unfolded Inr]]
            obtain pre d where o1: "o1 = pre @ [Forwarded d]" and pre: "list_all flush_line pre"
              and sf: "same_fields d data" and c1: "carrier_ok d0 False st1" by blast
            obtain o2 r2 where l: "stream_loop loads enc repl disc (Suc k) st1 rest = (o2, r2)"
              by (cases "stream_loop loads enc repl disc (Suc k) st1 rest")
            from Cons.IH [OF c1 l] have ih: "list_all2 same_fields (forwarded o2)
                (take (length (forwarded o2)) (data_events loads rest))
              \<and> list_all flush_sound o2
              \<and> (is_completed r2 \<longrightarrow> length (forwarded o2) = length (data_events loads rest))" .
            from nd sw nds Some pe Inr l Cons.prems(2)
            have "outs = o1 @ o2" and "oc = r2" by simp_all
            with ih o1 pre sf sw nds Some show ?thesis
              by (simp add: forwarded_flush_lines flush_line_sound)
          qed
        qed
      qed
    qed
  qed
qed

lemma stream_loop_disconnect:
  assumes "is_disconnected (k + length pre)"
  shows "stream_loop loads enc repl is_disconnected k st (pre @ line # post) =
           (case stream_loop loads enc repl is_disconnected k st pre of
              (outs, Completed st') \<Rightarrow> (outs, Disconnected)
            | (outs, oc) \<Rightarrow> (outs, oc))"
  using assms
proof (induction pre arbitrary: k st)
  case Nil
  then show ?case by simp
next
  case (Cons l pre)
  have ih: "\<And>s. stream_loop loads enc repl is_disconnected (Suc k) s (pre @ line # post) =
           (case stream_loop loads enc repl is_disconnected (Suc k) s pre of
              (outs, Completed st') \<Rightarrow> (outs, Disconnected)
            | (outs, oc) \<Rightarrow> (outs, oc))"
    using Cons.IH [of "Suc k"] Cons.prems by simp
  show ?case
    by (simp add: ih split: prod.splits sum.splits option.splits outcome.splits)
qed


lemma carrier_ok_init: "carrier_ok d False init"
  by (simp add: carrier_ok_def init_def)

lemma flush_sound_member:
  assumes "list_all flush_sound outs" and "Flushed j n a i rs \<in> set outs"
  shows "has_tool_calls j \<and> a \<noteq> []"
  using assms by (auto simp: list_all_iff)


section \<open>Running the events of one tool call\<close>

lemma is_fragment_E:
  assumes "is_fragment c j e"
  obtains kvs ckvs cs dkvs tkvs ts fkvs where
    "e = JObj kvs"
    "map_of kvs ''choices'' = Some (JArr (JObj ckvs # cs))"
    "map_of ckvs ''index'' = Some (JInt c)"
    "map_of ckvs ''delta'' = Some (JObj dkvs)"
    "map_of dkvs ''tool_calls'' = Some (JArr (JObj tkvs # ts))"
    "map_of tkvs ''index'' = Some (JInt j)"
    "map_of tkvs ''function'' = Some (JObj fkvs)"
proof -
  from assms obtain tkvs where t: "tool_call0 e = Some tkvs" and j: "map_of tkvs ''index'' = Some (JInt j)"
    by (auto simp: is_fragment_def split: option.splits)
  from assms obtain fkvs where f: "function0 e = Some fkvs"
    by (auto simp: is_fragment_def split: option.splits)
  from t f have tf: "map_of tkvs ''function'' = Some (JObj fkvs)"
    by (auto simp: function0_def split: option.splits json.splits)
  from t obtain ts where tc: "delta_field e ''tool_calls'' = Some (JArr (JObj tkvs # ts))"
    by (auto simp: tool_call0_def split: option.splits json.splits list.splits)
  then obtain dkvs where d: "delta0 e = Some dkvs"
    and dt: "map_of dkvs ''tool_calls'' = Some (JArr (JObj tkvs # ts))"
    by (auto simp: delta_field_def split: option.splits)
  from d obtain ckvs where ch: "choice0 e = Some ckvs" and cd: "map_of ckvs ''delta'' = Some (JObj dkvs)"
    by (auto simp: delta0_def split: option.splits json.splits)
  from ch obtain kvs cs where e: "e = JObj kvs" and kc: "map_of kvs ''choices'' = Some (JArr (JObj ckvs # cs))"
    by (auto simp: choice0_def split: option.splits json.splits list.splits)
  from assms ch have ci: "map_of ckvs ''index'' = Some (JInt c)"
    by (simp add: is_fragment_def choice_field_def)
  from e kc ci cd dt j tf show ?thesis by (rule that)
qed

lemma str_add_opt_str:
  "opt_str v \<Longrightarrow> str_add s (case v of None \<Rightarrow> JStr [] | Some w \<Rightarrow> w) = Inr (s @ str_or_empty v)"
  by (auto simp: opt_str_def str_or_empty_def split: option.splits json.splits)

lemma str_add_reasoning:
  assumes "reasoning_ok e" and "delta0 e = Some dkvs"
  shows "str_add s (py_or (case map_of dkvs ''reasoning_content'' of None \<Rightarrow> JNull | Some v \<Rightarrow> v) (JStr []))
           = Inr (s @ ev_reasoning e)"
  using assms
  by (auto simp: reasoning_ok_def ev_reasoning_def delta_field_def str_or_empty_def py_or_def
      split: option.splits json.splits)

lemma py_eq_JStr [simp]: "py_eq x (JStr s) = (x = JStr s)"
  by (cases x) auto

lemma py_eq_JInt_refl [simp]: "py_eq (JInt i) (JInt i)"
  by simp

lemma process_event_fragment:
  assumes frag: "is_fragment c j e"
    and st: "buffer st = [] \<or>
             (role st = JStr ''assistant'' \<and> choice_index st = JInt c \<and> tool_call_index st = JInt j)"
    and ro: "delta_field e ''role'' = Some (JStr ''assistant'') \<or> role st = JStr ''assistant''"
  shows "process_event enc repl st e =
           ([Forwarded e],
            Inr (st\<lparr> reasoning_content_buffer := reasoning_content_buffer st @ ev_reasoning e,
                      choice_index := JInt c, role := JStr ''assistant'',
                      tool_name := tool_name st @ frag_name e,
                      buffer := buffer st @ frag_args e,
                      tool_call_id := tool_call_id st @ frag_id e,
                      tool_call_index := JInt j,
                      last_chunk := Some e \<rparr>))"
proof -
  from frag obtain kvs ckvs cs dkvs tkvs ts fkvs where
    e: "e = JObj kvs"
    and kc: "map_of kvs ''choices'' = Some (JArr (JObj ckvs # cs))"
    and ci: "map_of ckvs ''index'' = Some (JInt c)"
    and cd: "map_of ckvs ''delta'' = Some (JObj dkvs)"
    and dt: "map_of dkvs ''tool_calls'' = Some (JArr (JObj tkvs # ts))"
    and tj: "map_of tkvs ''index'' = Some (JInt j)"
    and tf: "map_of tkvs ''function'' = Some (JObj fkvs)"
    by (rule is_fragment_E)
  have d0: "delta0 e = Some dkvs" using e kc cd by (simp add: delta0_def choice0_def)
  have t0: "tool_call0 e = Some tkvs"
    using d0 dt by (simp add: tool_call0_def delta_field_def)
  have f0: "function0 e = Some fkvs" using t0 tf by (simp add: function0_def)
  from dt have dne: "dkvs \<noteq> []" by auto
  from tj have tne: "tkvs \<noteq> []" by auto
  have role_val: "(case map_of dkvs ''role'' of None \<Rightarrow> role st | Some v \<Rightarrow> v) = JStr ''assistant''"
    using frag ro d0 by (auto simp: is_fragment_def delta_field_def split: option.splits)
  have rs: "str_add (reasoning_content_buffer st)
              (py_or (case map_of dkvs ''reasoning_content'' of None \<Rightarrow> JNull | Some v \<Rightarrow> v) (JStr []))
            = Inr (reasoning_content_buffer st @ ev_reasoning e)"
    using frag d0 by (intro str_add_reasoning) (simp_all add: is_fragment_def)
  have p: "parse_event st e = Inr \<lparr> choice_index_of_delta = JInt c, delta = JObj dkvs,
             role_in_delta = JStr ''assistant'', tool_calls_in_delta = JArr (JObj tkvs # ts),
             reasoning_after = reasoning_content_buffer st @ ev_reasoning e \<rparr>"
    using e kc ci cd dt dne role_val rs by (simp add: parse_event_def py_or_def)
  have nm: "str_add s (case map_of fkvs ''name'' of None \<Rightarrow> JStr [] | Some w \<Rightarrow> w) = Inr (s @ frag_name e)" for s
    using frag f0 by (simp add: is_fragment_def frag_name_def str_add_opt_str)
  have ar: "str_add s (case map_of fkvs ''arguments'' of None \<Rightarrow> JStr [] | Some w \<Rightarrow> w) = Inr (s @ frag_args e)" for s
    using frag f0 by (simp add: is_fragment_def frag_args_def str_add_opt_str)
  have id: "str_add s (case map_of tkvs ''id'' of None \<Rightarrow> JStr [] | Some w \<Rightarrow> w) = Inr (s @ frag_id e)" for s
    using frag t0 by (simp add: is_fragment_def frag_id_def str_add_opt_str)
  have fr: "\<not> truthy (case map_of kvs ''finish_reason'' of None \<Rightarrow> JNull | Some v \<Rightarrow> v)"
    using frag e by (auto simp: is_fragment_def top_field_def split: option.splits)
  then have fr2: "(case map_of kvs ''finish_reason'' of None \<Rightarrow> JNull | Some v \<Rightarrow> v) \<noteq> JStr ''tool_calls''"
    by auto
  have af: "add_fragment e (JObj tkvs) s =
      ([], Inr (s\<lparr> tool_name := tool_name s @ frag_name e, buffer := buffer s @ frag_args e,
                   tool_call_id := tool_call_id s @ frag_id e, tool_call_index := JInt j,
                   last_chunk := Some e \<rparr>, True))" for s
    using tne tf tj by (simp add: add_fragment_def nm ar id retR_def)
  have fin: "finish enc repl e True (s\<lparr>last_chunk := Some e\<rparr>) = ([Forwarded e], Inr (s\<lparr>last_chunk := Some e\<rparr>))" for s :: state
    using fr fr2 e by (simp add: finish_def Let_def flush_if_def retR_def)
  show ?thesis
  proof (cases "buffer st = []")
    case True
    then show ?thesis
      using p af fin [of "st\<lparr> reasoning_content_buffer := reasoning_content_buffer st @ ev_reasoning e,
                      choice_index := JInt c, role := JStr ''assistant'',
                      tool_name := tool_name st @ frag_name e,
                      buffer := buffer st @ frag_args e,
                      tool_call_id := tool_call_id st @ frag_id e,
                      tool_call_index := JInt j\<rparr>"]
      by (simp add: process_event_def after_boundary_def accumulate_def py_or_def tj Let_def)
  next
    case False
    with st have s: "role st = JStr ''assistant''" "choice_index st = JInt c" "tool_call_index st = JInt j"
      by simp_all
    have nb: "\<not> boundary st \<lparr> choice_index_of_delta = JInt c, delta = JObj dkvs,
             role_in_delta = JStr ''assistant'', tool_calls_in_delta = JArr (JObj tkvs # ts),
             reasoning_after = reasoning_content_buffer st @ ev_reasoning e \<rparr>"
      using s dne by (simp add: boundary_def)
    show ?thesis
      using p nb s af fin [of "st\<lparr> reasoning_content_buffer := reasoning_content_buffer st @ ev_reasoning e,
                      choice_index := JInt c, role := JStr ''assistant'',
                      tool_name := tool_name st @ frag_name e,
                      buffer := buffer st @ frag_args e,
                      tool_call_id := tool_call_id st @ frag_id e,
                      tool_call_index := JInt j\<rparr>"]
      by (simp add: process_event_def after_boundary_def accumulate_def py_or_def tj Let_def)
  qed
qed

lemma stream_loop_event:
  assumes "\<not> disc k" and "event_line loads line e"
    and "process_event enc repl st e = (o1, Inr st1)"
  shows "stream_loop loads enc repl disc k st (line # rest) =
           (o1 @ fst (stream_loop loads enc repl disc (Suc k) st1 rest),
            snd (stream_loop loads enc repl disc (Suc k) st1 rest))"
  using assms by (simp add: event_line_def split: prod.splits)

lemma stream_loop_fragments:
  assumes "list_all (is_fragment c j) frags"
    and "list_all2 (event_line loads) lines frags"
    and "\<forall>k. \<not> disc k"
    and "role st = JStr ''assistant''" and "choice_index st = JInt c"
    and "tool_call_index st = JInt j"
  shows "stream_loop loads enc repl disc k st (lines @ rest) =
           (map Forwarded frags
              @ fst (stream_loop loads enc repl disc (k + length lines) (after_fragments st frags) rest),
            snd (stream_loop loads enc repl disc (k + length lines) (after_fragments st frags) rest))"
  using assms
proof (induction frags arbitrary: lines st k)
  case Nil
  then show ?case by (simp add: after_fragments_def)
next
  case (Cons e frags)
  from Cons.prems(2) obtain line lines' where l: "lines = line # lines'"
    and el: "event_line loads line e" and rest: "list_all2 (event_line loads) lines' frags"
    by (auto simp: list_all2_Cons2)
  let ?st1 = "st\<lparr> reasoning_content_buffer := reasoning_content_buffer st @ ev_reasoning e,
                      choice_index := JInt c, role := JStr ''assistant'',
                      tool_name := tool_name st @ frag_name e,
                      buffer := buffer st @ frag_args e,
                      tool_call_id := tool_call_id st @ frag_id e,
                      tool_call_index := JInt j,
                      last_chunk := Some e \<rparr>"
  have pe: "process_event enc repl st e = ([Forwarded e], Inr ?st1)"
    using Cons.prems by (intro process_event_fragment) simp_all
  have nd: "\<not> disc k" using Cons.prems(3) by simp
  have af: "after_fragments ?st1 frags = after_fragments st (e # frags)"
    using Cons.prems(4-6) by (intro state.equality) (simp_all add: after_fragments_def)
  from Cons.prems(1) have fr: "list_all (is_fragment c j) frags" by simp
  have ih: "stream_loop loads enc repl disc (Suc k) ?st1 (lines' @ rest) =
           (map Forwarded frags
              @ fst (stream_loop loads enc repl disc (Suc k + length lines') (after_fragments ?st1 frags) rest),
            snd (stream_loop loads enc repl disc (Suc k + length lines') (after_fragments ?st1 frags) rest))"
    by (rule Cons.IH [OF fr rest Cons.prems(3)]) simp_all
  show ?case
    unfolding l append_Cons
      stream_loop_event [where disc = disc and k = k and rest = "lines' @ rest", OF nd el pe] ih af
    by simp
qed

lemma stream_loop_poll_index0:
  "stream_loop loads enc repl (\<lambda>k. False) k st lines =
   stream_loop loads enc repl (\<lambda>k. False) k' st lines"
proof (induction lines arbitrary: k k' st)
  case Nil
  show ?case by simp
next
  case (Cons line rest)
  have ih: "\<And>s. stream_loop loads enc repl (\<lambda>k. False) (Suc k) s rest =
                 stream_loop loads enc repl (\<lambda>k. False) (Suc k') s rest"
    by (rule Cons.IH)
  show ?case by (simp add: ih split: option.splits prod.splits sum.splits)
qed

lemma stream_loop_filter0:
  "stream_loop loads enc repl (\<lambda>k. False) k st lines =
   stream_loop loads enc repl (\<lambda>k. False) k st (filter (\<lambda>l. startswith l ''data: '') lines)"
proof (induction lines arbitrary: k st)
  case Nil
  show ?case by simp
next
  case (Cons line rest)
  have ih: "\<And>s. stream_loop loads enc repl (\<lambda>k. False) (Suc k) s rest =
      stream_loop loads enc repl (\<lambda>k. False) (Suc k) s (filter (\<lambda>l. startswith l ''data: '') rest)"
    by (rule Cons.IH)
  show ?case
  proof (cases "startswith line ''data: ''")
    case True
    then show ?thesis by (simp add: ih split: option.splits prod.splits sum.splits)
  next
    case False
    then have "stream_loop loads enc repl (\<lambda>k. False) k st (line # rest) =
        stream_loop loads enc repl (\<lambda>k. False) (Suc k) st (filter (\<lambda>l. startswith l ''data: '') rest)"
      by (simp add: ih)
    also have "\<dots> = stream_loop loads enc repl (\<lambda>k. False) k st (filter (\<lambda>l. startswith l ''data: '') rest)"
      by (rule stream_loop_poll_index0)
    finally show ?thesis using False by simp
  qed
qed

lemma stream_loop_filter:
  assumes "\<forall>k. \<not> disc k"
  shows "stream_loop loads enc repl disc k st lines =
         stream_loop loads enc repl disc k st (filter (\<lambda>l. startswith l ''data: '') lines)"
proof -
  from assms have "disc = (\<lambda>k. False)" by auto
  then show ?thesis by (simp only: stream_loop_filter0 [symmetric])
qed

lemma set_content_delta0:
  assumes "delta0 lc = Some dkvs"
  obtains lc' where "set_content lc x = Inr lc'"
  using assms
  by (auto simp: delta0_def choice0_def set_content_def split: json.splits option.splits list.splits)

lemma finish_idle:
  assumes "buffer s = []"
  shows "finish enc repl (JObj kvs) False s = ([Forwarded (remap_finish (JObj kvs))], Inr s)"
  using assms by (simp add: finish_def Let_def retR_def remap_finish_def)

lemma accumulate_idle:
  assumes "buffer s = []" and "\<not> truthy tcs"
  shows "accumulate enc repl data tcs s = ([], Inr (s, False))"
  using assms by (simp add: accumulate_def py_or_def add_fragment_def retR_def)

lemma process_event_terminal:
  assumes tm: "is_terminal t" and opn: "buffer st \<noteq> []"
    and lc: "last_chunk st = Some lc"
    and sc: "set_content lc (repl (enc (tool_name st) (buffer st) (tool_call_id st)
               (reasoning_content_buffer st @ ev_reasoning t))) = Inr lc'"
  shows "\<exists>st'. process_event enc repl st t =
           ([Flushed lc' (tool_name st) (buffer st) (tool_call_id st)
               (reasoning_content_buffer st @ ev_reasoning t), Forwarded (remap_finish t)], Inr st')
         \<and> buffer st' = []"
proof -
  from tm obtain dkvs where d0: "delta0 t = Some dkvs" by (auto simp: is_terminal_def)
  then obtain ckvs where ch: "choice0 t = Some ckvs" and cd: "map_of ckvs ''delta'' = Some (JObj dkvs)"
    by (auto simp: delta0_def split: option.splits json.splits)
  from ch obtain kvs cs where e: "t = JObj kvs" and kc: "map_of kvs ''choices'' = Some (JArr (JObj ckvs # cs))"
    by (auto simp: choice0_def split: option.splits json.splits list.splits)
  define tcs where "tcs = (case map_of dkvs ''tool_calls'' of None \<Rightarrow> JNull | Some v \<Rightarrow> v)"
  define ci where "ci = (case map_of ckvs ''index'' of None \<Rightarrow> choice_index st | Some v \<Rightarrow> v)"
  define ro where "ro = (case map_of dkvs ''role'' of None \<Rightarrow> role st | Some v \<Rightarrow> v)"
  have nt: "\<not> truthy tcs"
    using tm d0 by (auto simp: is_terminal_def delta_field_def tcs_def split: option.splits)
  have rs: "str_add (reasoning_content_buffer st)
              (py_or (case map_of dkvs ''reasoning_content'' of None \<Rightarrow> JNull | Some v \<Rightarrow> v) (JStr []))
            = Inr (reasoning_content_buffer st @ ev_reasoning t)"
    using tm d0 by (intro str_add_reasoning) (simp_all add: is_terminal_def)
  have po: "py_or (JObj dkvs) (JObj []) = JObj dkvs" by (simp add: py_or_def)
  have p: "parse_event st t = Inr \<lparr> choice_index_of_delta = ci, delta = JObj dkvs,
             role_in_delta = ro, tool_calls_in_delta = tcs,
             reasoning_after = reasoning_content_buffer st @ ev_reasoning t \<rparr>"
    using e kc cd rs po by (simp add: parse_event_def tcs_def ci_def ro_def py_or_def)
  have b: "boundary st \<lparr> choice_index_of_delta = ci, delta = JObj dkvs,
             role_in_delta = ro, tool_calls_in_delta = tcs,
             reasoning_after = reasoning_content_buffer st @ ev_reasoning t \<rparr>"
    using nt by (simp add: boundary_def)
  let ?st1 = "st\<lparr> reasoning_content_buffer := [], last_chunk := Some lc', buffer := [],
                    tool_name := [], tool_call_id := [] \<rparr>"
  have fl: "flush_if True enc repl (st\<lparr> reasoning_content_buffer := reasoning_content_buffer st @ ev_reasoning t \<rparr>)
      = ([Flushed lc' (tool_name st) (buffer st) (tool_call_id st)
               (reasoning_content_buffer st @ ev_reasoning t)], Inr ?st1)"
    using opn lc sc by (simp add: flush_if_def create_tool_call_def)
  let ?st2 = "?st1\<lparr> choice_index := ci, role := ro \<rparr>"
  have fin: "\<And>s. buffer s = [] \<Longrightarrow>
      finish enc repl (JObj kvs) False s = ([Forwarded (remap_finish t)], Inr s)"
    unfolding e by (rule finish_idle)
  have ab: "after_boundary enc repl t \<lparr> choice_index_of_delta = ci, delta = JObj dkvs,
             role_in_delta = ro, tool_calls_in_delta = tcs,
             reasoning_after = reasoning_content_buffer st @ ev_reasoning t \<rparr> ?st1
           = ([Forwarded (remap_finish t)], Inr ?st2)"
    using fin nt e by (simp add: after_boundary_def Let_def accumulate_idle retR_def)
  have "process_event enc repl st t =
           ([Flushed lc' (tool_name st) (buffer st) (tool_call_id st)
               (reasoning_content_buffer st @ ev_reasoning t), Forwarded (remap_finish t)], Inr ?st2)"
    using p b fl ab by (simp add: process_event_def)
  then show ?thesis by auto
qed

lemma is_fragment_delta0:
  assumes "is_fragment c j e"
  obtains dkvs where "delta0 e = Some dkvs"
  using assms by (elim is_fragment_E) (simp add: delta0_def choice0_def)


section \<open>Flush points with an empty buffer\<close>

lemma str_add_InrE:
  assumes "str_add s v = Inr x"
  obtains t where "v = JStr t" and "x = s @ t"
  using assms by (cases v) auto

lemma startswith_refl [simp]: "startswith s s"
  by (simp add: startswith_def)

lemma startswith_append [simp]: "startswith (s @ t) s"
  by (simp add: startswith_def)

lemma add_fragment_keeps:
  "okR (\<lambda>ln. False)
     (\<lambda>(s', al). startswith (tool_name s') (tool_name s) \<and> startswith (tool_call_id s') (tool_call_id s)
        \<and> reasoning_content_buffer s' = reasoning_content_buffer s)
     (add_fragment data tc s)"
  unfolding add_fragment_def
  by (auto intro!: okR_bind_liftE okR_retR elim!: str_add_InrE)

lemma accumulate_idle_keeps:
  assumes "buffer s = []"
  shows "okR (\<lambda>ln. False)
     (\<lambda>(s', al). startswith (tool_name s') (tool_name s) \<and> startswith (tool_call_id s') (tool_call_id s)
        \<and> reasoning_content_buffer s' = reasoning_content_buffer s)
     (accumulate enc repl data tcs s)"
  unfolding accumulate_def using assms
  by (auto intro!: okR_bind_liftE add_fragment_keeps)

lemma finish_cases:
  assumes "finish enc repl data al s = (outs, Inr s')"
  shows "(\<exists>d. outs = [Forwarded d] \<and> tool_name s' = tool_name s \<and> tool_call_id s' = tool_call_id s
            \<and> reasoning_content_buffer s' = reasoning_content_buffer s \<and> buffer s' = buffer s)
         \<or> (\<exists>carrier d. outs = [Flushed carrier (tool_name s) (buffer s) (tool_call_id s)
                                  (reasoning_content_buffer s), Forwarded d]
               \<and> buffer s \<noteq> [] \<and> buffer s' = [])"
proof (cases "dict_get data ''finish_reason'' JNull")
  case (Inl e)
  with assms show ?thesis by (simp add: finish_def)
next
  case (Inr fr)
  show ?thesis
  proof (cases "truthy fr \<and> buffer s \<noteq> []")
    case False
    then have "flush_if (truthy fr) enc repl s = retR s" by (auto simp: flush_if_def)
    with assms Inr show ?thesis
      by (cases "dict_get (if al then case last_chunk s of None \<Rightarrow> data | Some lc \<Rightarrow> lc else data) ''finish_reason'' JNull")
         (auto simp: finish_def Let_def split: if_splits)
  next
    case True
    then have f: "flush_if (truthy fr) enc repl s = create_tool_call enc repl s"
      by (simp add: flush_if_def)
    show ?thesis
    proof (cases "create_tool_call enc repl s")
      case (Pair o1 r1)
      show ?thesis
      proof (cases r1)
        case (Inl e)
        with assms Inr f Pair show ?thesis by (simp add: finish_def)
      next
        case r1: (Inr s1)
        with Pair obtain carrier where o1: "o1 = [Flushed carrier (tool_name s) (buffer s) (tool_call_id s)
                                  (reasoning_content_buffer s)]" and b1: "buffer s1 = []"
          by (auto simp: create_tool_call_def split: option.splits sum.splits)
        from assms Inr f Pair r1 o1 b1 True show ?thesis
          by (cases "dict_get (if al then case last_chunk s1 of None \<Rightarrow> data | Some lc \<Rightarrow> lc else data) ''finish_reason'' JNull")
             (auto simp: finish_def Let_def split: if_splits)
      qed
    qed
  qed
qed

lemma okR_no_output:
  assumes "okR (\<lambda>ln. False) Q m"
  shows "fst m = [] \<and> (\<forall>x. snd m = Inr x \<longrightarrow> Q x)"
  using assms by (cases "fst m") (auto simp: okR_def)

lemma process_event_idle:
  assumes "buffer st = []" and "process_event enc repl st data = (outs, Inr st')"
  shows "(\<exists>d. outs = [Forwarded d]
            \<and> startswith (tool_name st') (tool_name st)
            \<and> startswith (tool_call_id st') (tool_call_id st)
            \<and> startswith (reasoning_content_buffer st') (reasoning_content_buffer st))
         \<or> (\<exists>carrier n a i rs d. outs = [Flushed carrier n a i rs, Forwarded d] \<and> a \<noteq> []
            \<and> startswith n (tool_name st)
            \<and> startswith i (tool_call_id st)
            \<and> startswith rs (reasoning_content_buffer st))"
proof (cases "parse_event st data")
  case (Inl e)
  with assms(2) show ?thesis by (simp add: process_event_def)
next
  case (Inr p)
  then obtain t where ra: "reasoning_after p = reasoning_content_buffer st @ t"
    by (elim parse_event_InrE str_add_InrE) simp
  let ?st2 = "st\<lparr> reasoning_content_buffer := reasoning_after p,
                   choice_index := choice_index_of_delta p, role := role_in_delta p \<rparr>"
  let ?X = "if py_eq (role_in_delta p) (JStr ''assistant'')
            then accumulate enc repl data (tool_calls_in_delta p) ?st2
            else retR (?st2, False)"
  have pe: "process_event enc repl st data = bindR ?X (\<lambda>(st3, al). finish enc repl data al st3)"
    using Inr assms(1) by (simp add: process_event_def after_boundary_def Let_def)
  have "okR (\<lambda>ln. False)
     (\<lambda>(s', al). startswith (tool_name s') (tool_name ?st2) \<and> startswith (tool_call_id s') (tool_call_id ?st2)
        \<and> reasoning_content_buffer s' = reasoning_content_buffer ?st2) ?X"
  proof (cases "py_eq (role_in_delta p) (JStr ''assistant'')")
    case True
    have "buffer ?st2 = []" using assms(1) by simp
    from accumulate_idle_keeps [OF this, of enc repl data "tool_calls_in_delta p"] True
    show ?thesis by (simp only: if_True)
  next
    case False
    then show ?thesis by (simp only: if_False) (rule okR_retR, simp)
  qed
  from okR_no_output [OF this]
  have x1: "fst ?X = []" and x2: "\<And>s' al. snd ?X = Inr (s', al) \<Longrightarrow>
      startswith (tool_name s') (tool_name st) \<and> startswith (tool_call_id s') (tool_call_id st)
        \<and> reasoning_content_buffer s' = reasoning_content_buffer st @ t"
    using ra by auto
  show ?thesis
  proof (cases "snd ?X")
    case (Inl e)
    with x1 have "?X = ([], Inl e)" by (intro prod_eqI) simp_all
    with pe assms(2) show ?thesis by simp
  next
    case r: (Inr x)
    obtain s3 al where x: "x = (s3, al)" by (cases x)
    with r x1 have X: "?X = ([], Inr (s3, al))" by (intro prod_eqI) simp_all
    from x2 [of s3 al] r x have k: "startswith (tool_name s3) (tool_name st)"
      "startswith (tool_call_id s3) (tool_call_id st)"
      "reasoning_content_buffer s3 = reasoning_content_buffer st @ t" by simp_all
    from pe assms(2) X have "finish enc repl data al s3 = (outs, Inr st')"
      by (simp add: bindR_def split: prod.splits)
    from finish_cases [OF this] k show ?thesis
      by (elim disjE exE conjE) (auto simp: startswith_def)
  qed
qed

lemma sample_stream_run:
  "fst (handle_stream_response sample_loads sample_enc id (\<lambda>k. False) sample_stream) =
     [Forwarded (sample_fragment [(''role'', JStr ''assistant'')] 0 0 ''c1'' ''f'' ''{}''),
      Forwarded (sample_fragment [] 0 0 [] [] ''x''),
      Flushed sample_carrier ''f'' ''{}x'' ''c1'' [],
      Forwarded sample_finish]"
  by code_simp

lemma sentinel_idle:
  assumes "buffer st = []" and "\<not> is_disconnected k"
    and "startswith line ''data: ''" and "strip line = ''data: [DONE]''"
  shows "stream_loop loads enc repl is_disconnected k st [line] =
           ([Raw (line @ [CHR 0x0A, CHR 0x0A])], Completed st)"
  using assms by (simp add: retR_def)


section \<open>States a stream reaches\<close>

lemma bindR_assoc: "bindR (bindR m f) g = bindR m (\<lambda>x. bindR (f x) g)"
  by (cases m) (auto simp: bindR_def split: sum.splits prod.splits)

lemma create_tool_call_flushed:
  assumes "last_chunk st = Some lc"
    and "set_content lc (repl (enc (tool_name st) (buffer st) (tool_call_id st)
           (reasoning_content_buffer st))) = Inr lc'"
  shows "create_tool_call enc repl st =
           ([Flushed lc' (tool_name st) (buffer st) (tool_call_id st) (reasoning_content_buffer st)],
            Inr (flushed st lc'))"
  using assms by (simp add: create_tool_call_def flushed_def)

lemma flush_if_open:
  "okR (\<lambda>ln. True) (\<lambda>s. role s = role st \<and> (buffer s = [] \<or> (\<not> c \<and> s = st)))
     (flush_if c enc repl st)"
  by (auto simp: flush_if_def create_tool_call_def okR_def retR_def split: option.splits sum.splits)

lemma add_fragment_open:
  assumes "open_ok s" and "role s = JStr ''assistant''"
  shows "okR (\<lambda>ln. True) (\<lambda>(s', al). open_ok s') (add_fragment data tc s)"
  using assms unfolding add_fragment_def
  by (auto intro!: okR_bind_liftE okR_retR simp: open_ok_def)

lemma accumulate_open:
  assumes "open_ok s" and "role s = JStr ''assistant''"
  shows "okR (\<lambda>ln. True) (\<lambda>(s', al). open_ok s') (accumulate enc repl data tcs s)"
  unfolding accumulate_def
proof (intro okR_bind_liftE)
  fix tc idx
  show "okR (\<lambda>ln. True) (\<lambda>(s', al). open_ok s')
          (bindR (flush_if (\<not> py_eq idx (tool_call_index s)) enc repl s) (add_fragment data tc))"
  proof (rule okR_bindR [OF flush_if_open])
    fix s1
    assume "role s1 = role s \<and> (buffer s1 = [] \<or> (\<not> \<not> py_eq idx (tool_call_index s) \<and> s1 = s))"
    with assms have "open_ok s1" and "role s1 = JStr ''assistant''"
      by (auto simp: open_ok_def)
    then show "okR (\<lambda>ln. True) (\<lambda>(s', al). open_ok s') (add_fragment data tc s1)"
      by (rule add_fragment_open)
  qed
qed

lemma finish_open:
  assumes "open_ok s"
  shows "okR (\<lambda>ln. True) open_ok (finish enc repl data al s)"
  unfolding finish_def Let_def
  apply (rule okR_bind_liftE)
  apply (rule okR_bindR [OF flush_if_open])
  apply (rule okR_bind_liftE)
  apply (insert assms, auto simp: okR_def open_ok_def)
  done

lemma after_boundary_open:
  assumes "open_ok s" and "buffer s = [] \<or> role_in_delta p = JStr ''assistant''"
  shows "okR (\<lambda>ln. True) open_ok (after_boundary enc repl data p s)"
proof -
  let ?s2 = "s\<lparr> choice_index := choice_index_of_delta p, role := role_in_delta p \<rparr>"
  have o2: "open_ok ?s2" using assms by (auto simp: open_ok_def)
  have "okR (\<lambda>ln. True) (\<lambda>(s', al). open_ok s')
          (if py_eq (role_in_delta p) (JStr ''assistant'')
           then accumulate enc repl data (tool_calls_in_delta p) ?s2
           else retR (?s2, False))"
  proof (cases "py_eq (role_in_delta p) (JStr ''assistant'')")
    case True
    then have "role ?s2 = JStr ''assistant''" by simp
    from accumulate_open [OF o2 this, of enc repl data "tool_calls_in_delta p"] True
    show ?thesis by (simp only: if_True)
  next
    case False
    then show ?thesis using o2 by (simp only: if_False) (rule okR_retR, simp)
  qed
  then show ?thesis
    unfolding after_boundary_def Let_def
    by (rule okR_bindR) (auto intro: finish_open)
qed

lemma process_event_open:
  assumes "open_ok st"
  shows "okR (\<lambda>ln. True) open_ok (process_event enc repl st data)"
  unfolding process_event_def
proof (rule okR_bind_liftE, rule okR_bindR [OF flush_if_open])
  fix p :: parsed and s1 :: state
  let ?st0 = "st\<lparr> reasoning_content_buffer := reasoning_after p \<rparr>"
  assume "role s1 = role ?st0 \<and> (buffer s1 = [] \<or> (\<not> boundary st p \<and> s1 = ?st0))"
  with assms have "open_ok s1" and "buffer s1 = [] \<or> role_in_delta p = JStr ''assistant''"
    by (auto simp: open_ok_def boundary_def)
  then show "okR (\<lambda>ln. True) open_ok (after_boundary enc repl data p s1)"
    by (rule after_boundary_open)
qed

lemma stream_loop_reachable:
  assumes "open_ok st" and "carrier_ok d False st"
    and "stream_loop loads enc repl disc k st lines = (outs, Completed st')"
  shows "open_ok st' \<and> carrier_ok d False st'"
  using assms
proof (induction lines arbitrary: k st outs)
  case Nil
  then show ?case by simp
next
  case (Cons line rest)
  from Cons.prems(3) have nd: "\<not> disc k" by (auto split: if_splits)
  show ?case
  proof (cases "startswith line ''data: ''")
    case False
    with nd Cons.prems(3) have "stream_loop loads enc repl disc (Suc k) st rest = (outs, Completed st')"
      by simp
    from Cons.IH [OF Cons.prems(1,2) this] show ?thesis .
  next
    case sw: True
    show ?thesis
    proof (cases "strip line = ''data: [DONE]''")
      case True
      obtain o1 r where f: "flush_if True enc repl st = (o1, r)" by (cases "flush_if True enc repl st")
      with nd sw True Cons.prems(3) obtain st1 o2 where r: "r = Inr st1"
        and l: "stream_loop loads enc repl disc (Suc k) st1 rest = (o2, Completed st')"
        by (cases r) (auto split: prod.splits)
      from flush_if_sound [OF Cons.prems(2) f] r have c1: "carrier_ok d False st1" by simp
      from flush_if_open [where c = True and enc = enc and repl = repl and st = st] f r Cons.prems(1) have "open_ok st1"
        by (auto simp: okR_def open_ok_def)
      from Cons.IH [OF this c1 l] show ?thesis .
    next
      case nds: False
      with nd sw Cons.prems(3) obtain data where ld: "loads (strip (drop 6 line)) = Some data"
        by (cases "loads (strip (drop 6 line))") auto
      obtain o1 r where pe: "process_event enc repl st data = (o1, r)"
        by (cases "process_event enc repl st data")
      with nd sw nds ld Cons.prems(3) obtain st1 o2 where r: "r = Inr st1"
        and l: "stream_loop loads enc repl disc (Suc k) st1 rest = (o2, Completed st')"
        by (cases r) (auto split: prod.splits)
      from process_event_Inr [OF Cons.prems(2) pe [unfolded r]] have c1: "carrier_ok d False st1"
        by blast
      from process_event_open [OF Cons.prems(1), of enc repl data] pe r have "open_ok st1"
        by (simp add: okR_def)
      from Cons.IH [OF this c1 l] show ?thesis .
    qed
  qed
qed

lemma open_ok_init: "open_ok init"
  by (simp add: open_ok_def init_def)

lemma has_tool_calls_set_content_ok:
  assumes "has_tool_calls lc"
  obtains lc' where "set_content lc x = Inr lc'"
proof -
  from assms obtain dkvs where "delta0 lc = Some dkvs"
    by (auto simp: has_tool_calls_def delta_field_def split: option.splits)
  then show ?thesis using that by (rule set_content_delta0)
qed


section \<open>Carriers and forwarded events\<close>

lemma remap_finish_expr:
  assumes "dict_get d ''finish_reason'' JNull = Inr fr1"
  shows "(if fr1 = JStr ''tool_calls''
          then (case d of JObj kvs \<Rightarrow> JObj (dict_set ''finish_reason'' (JStr ''stop'') kvs) | _ \<Rightarrow> d)
          else d) = remap_finish d"
  using assms by (cases d) (auto simp: remap_finish_def)

lemma delta_field_remap_finish [simp]: "delta_field (remap_finish e) k = delta_field e k"
  by (cases e) (simp_all add: remap_finish_def delta_field_set_finish_reason)

lemma delta_content_set_content:
  assumes "set_content e x = Inr c"
  shows "delta_field c ''content'' = Some (JStr x)"
  using assms
  by (elim set_content_InrE)
     (simp add: delta_field_def delta0_def choice0_def dict_set_def update_conv')

lemma forward_of_plain: "forward_of e (remap_finish e)"
  by (simp add: forward_of_def)

lemma forward_of_carrier: "set_content e x = Inr c \<Longrightarrow> forward_of e (remap_finish c)"
  by (simp add: forward_of_def delta_content_set_content)

lemma forward_of_same_fields:
  assumes "forward_of e t"
  shows "same_fields t e"
  using assms
  by (auto simp: forward_of_def same_fields_def delta_field_set_content
      split: option.splits json.splits sum.splits)

lemma base_ok_mono: "base_ok E st \<Longrightarrow> E \<subseteq> E' \<Longrightarrow> base_ok E' st"
  by (auto simp: base_ok_def)

lemma flush_from_mono: "flush_from enc repl E ln \<Longrightarrow> E \<subseteq> E' \<Longrightarrow> flush_traced enc repl E' ln"
  by (cases ln) auto

lemma flush_from_all_mono:
  "list_all (flush_from enc repl E) lns \<Longrightarrow> E \<subseteq> E' \<Longrightarrow> list_all (flush_traced enc repl E') lns"
  by (auto simp: list_all_iff intro: flush_from_mono)

lemma flush_traced_mono:
  "list_all (flush_traced enc repl E) lns \<Longrightarrow> E \<subseteq> E' \<Longrightarrow> list_all (flush_traced enc repl E') lns"
proof (induction lns)
  case Nil
  show ?case by simp
next
  case (Cons ln lns)
  then show ?case by (cases ln) auto
qed

lemma flush_if_from:
  assumes "base_ok E st"
  shows "okR (flush_from enc repl E)
           (\<lambda>st'. base_ok E st' \<and> (st' = st \<or> buffer st' = [])) (flush_if c enc repl st)"
  using assms
  by (auto simp: flush_if_def create_tool_call_def okR_def retR_def base_ok_def
      split: option.splits sum.splits)

lemma add_fragment_from:
  assumes "base_ok E st" and "data \<in> E"
  shows "okR (flush_from enc repl E) (\<lambda>(st', al). base_ok E st' \<and> (al \<longrightarrow> last_chunk st' = Some data))
           (add_fragment data tc st)"
  using assms unfolding add_fragment_def
  by (auto intro!: okR_bind_liftE okR_retR simp: base_ok_def)

lemma accumulate_from:
  assumes "base_ok E st" and "data \<in> E"
  shows "okR (flush_from enc repl E) (\<lambda>(st', al). base_ok E st' \<and> (al \<longrightarrow> last_chunk st' = Some data))
           (accumulate enc repl data tcs st)"
  unfolding accumulate_def
proof (intro okR_bind_liftE)
  fix tc idx
  show "okR (flush_from enc repl E) (\<lambda>(st', al). base_ok E st' \<and> (al \<longrightarrow> last_chunk st' = Some data))
          (bindR (flush_if (\<not> py_eq idx (tool_call_index st)) enc repl st) (add_fragment data tc))"
  proof (rule okR_bindR [OF flush_if_from [OF assms(1)]])
    fix st1
    assume "base_ok E st1 \<and> (st1 = st \<or> buffer st1 = [])"
    then have "base_ok E st1" by simp
    from this assms(2)
    show "okR (flush_from enc repl E) (\<lambda>(st', al). base_ok E st' \<and> (al \<longrightarrow> last_chunk st' = Some data))
            (add_fragment data tc st1)"
      by (rule add_fragment_from)
  qed
qed

lemma finish_after_flush_alias:
  assumes "dict_get data ''finish_reason'' JNull = Inr fr"
    and "flush_if (truthy fr) enc repl st = (o1, Inr st1)"
    and "last_chunk st1 = Some lc"
    and "dict_get lc ''finish_reason'' JNull = Inr fr1"
  shows "finish enc repl data True st =
           (o1 @ [Forwarded (remap_finish lc)], Inr (st1\<lparr> last_chunk := Some (remap_finish lc) \<rparr>))"
  using assms by (cases lc) (auto simp: finish_def Let_def remap_finish_def)

lemma finish_after_flush_plain:
  assumes "dict_get data ''finish_reason'' JNull = Inr fr"
    and "flush_if (truthy fr) enc repl st = (o1, Inr st1)"
  shows "finish enc repl data False st = (o1 @ [Forwarded (remap_finish data)], Inr st1)"
  using assms by (cases data) (auto simp: finish_def Let_def remap_finish_def)

lemma finish_from:
  assumes b: "base_ok E st" and d: "data \<in> E" and a: "al \<longrightarrow> last_chunk st = Some data"
  shows "shapeR (flush_from enc repl E) (\<lambda>ln st'. forward_from data ln \<and> base_ok E st')
           (finish enc repl data al st)"
proof (cases "dict_get data ''finish_reason'' JNull")
  case (Inl e)
  then show ?thesis by (simp add: finish_def shapeR_def)
next
  case (Inr fr)
  show ?thesis
  proof (cases "truthy fr \<and> buffer st \<noteq> []")
    case False
    then have f: "flush_if (truthy fr) enc repl st = ([], Inr st)"
      by (auto simp: flush_if_def retR_def)
    have keep: "remap_finish data = data" if "buffer st \<noteq> []"
      using that False Inr by (cases data) (auto simp: remap_finish_def)
    show ?thesis
    proof (cases al)
      case True
      with a have lc: "last_chunk st = Some data" by simp
      have bo: "base_ok E (st\<lparr> last_chunk := Some (remap_finish data) \<rparr>)"
      proof (cases "buffer st = []")
        case True
        then show ?thesis by (simp add: base_ok_def)
      next
        case False
        with keep have "remap_finish data = data" by simp
        with d show ?thesis by (auto simp: base_ok_def)
      qed
      from finish_after_flush_alias [OF Inr f lc Inr] True bo show ?thesis
        by (simp add: shapeR_def forward_of_plain)
    next
      case False
      from finish_after_flush_plain [OF Inr f] False b show ?thesis
        by (simp add: shapeR_def forward_of_plain)
    qed
  next
    case True
    with b obtain e where e: "e \<in> E" and lc: "last_chunk st = Some e" by (auto simp: base_ok_def)
    from True have f: "flush_if (truthy fr) enc repl st = create_tool_call enc repl st"
      by (simp add: flush_if_def)
    let ?x = "repl (enc (tool_name st) (buffer st) (tool_call_id st) (reasoning_content_buffer st))"
    show ?thesis
    proof (cases "set_content e ?x")
      case (Inl err)
      with Inr f lc show ?thesis
        by (simp add: finish_def create_tool_call_def shapeR_def)
    next
      case sc: (Inr lc')
      have ct: "flush_if (truthy fr) enc repl st =
          ([Flushed lc' (tool_name st) (buffer st) (tool_call_id st) (reasoning_content_buffer st)],
           Inr (flushed st lc'))"
        unfolding f using lc sc by (rule create_tool_call_flushed)
      have fl: "flush_from enc repl E
          (Flushed lc' (tool_name st) (buffer st) (tool_call_id st) (reasoning_content_buffer st))"
        using e sc by auto
      show ?thesis
      proof (cases al)
        case True
        with a lc have ed: "e = data" by simp
        from sc obtain kvs where k: "lc' = JObj kvs" by (elim set_content_InrE) simp
        have l1: "last_chunk (flushed st lc') = Some lc'" by (simp add: flushed_def)
        have g: "dict_get lc' ''finish_reason'' JNull =
            Inr (case map_of kvs ''finish_reason'' of None \<Rightarrow> JNull | Some v \<Rightarrow> v)"
          by (simp add: k)
        have fw: "forward_of data (remap_finish lc')"
          using sc ed by (simp add: forward_of_carrier)
        from finish_after_flush_alias [OF Inr ct l1 g] True fw fl show ?thesis
          by (simp add: shapeR_def base_ok_def flushed_def)
      next
        case False
        from finish_after_flush_plain [OF Inr ct] False fl show ?thesis
          by (simp add: shapeR_def base_ok_def flushed_def forward_of_plain)
      qed
    qed
  qed
qed

lemma after_boundary_from:
  assumes "base_ok E st" and "data \<in> E"
  shows "shapeR (flush_from enc repl E) (\<lambda>ln st'. forward_from data ln \<and> base_ok E st')
           (after_boundary enc repl data p st)"
proof -
  let ?st2 = "st\<lparr> choice_index := choice_index_of_delta p, role := role_in_delta p \<rparr>"
  have b2: "base_ok E ?st2" using assms(1) by (simp add: base_ok_def)
  have "okR (flush_from enc repl E) (\<lambda>(st', al). base_ok E st' \<and> (al \<longrightarrow> last_chunk st' = Some data))
          (if py_eq (role_in_delta p) (JStr ''assistant'')
           then accumulate enc repl data (tool_calls_in_delta p) ?st2
           else retR (?st2, False))"
    using accumulate_from [OF b2 assms(2), of enc repl "tool_calls_in_delta p"] b2
    by (auto intro: okR_retR)
  then show ?thesis
    unfolding after_boundary_def Let_def
    by (rule shapeR_bindR) (auto intro: finish_from [OF _ assms(2)])
qed

lemma process_event_from:
  assumes "base_ok E st" and "data \<in> E"
  shows "shapeR (flush_from enc repl E) (\<lambda>ln st'. forward_from data ln \<and> base_ok E st')
           (process_event enc repl st data)"
  unfolding process_event_def
proof (rule shapeR_bind_liftE)
  fix p :: parsed
  have b1: "base_ok E (st\<lparr> reasoning_content_buffer := reasoning_after p \<rparr>)"
    using assms(1) by (simp add: base_ok_def)
  show "shapeR (flush_from enc repl E) (\<lambda>ln st'. forward_from data ln \<and> base_ok E st')
     (bindR (flush_if (boundary st p) enc repl (st\<lparr> reasoning_content_buffer := reasoning_after p \<rparr>))
        (after_boundary enc repl data p))"
    by (rule shapeR_bindR [OF flush_if_from [OF b1]]) (auto intro: after_boundary_from [OF _ assms(2)])
qed

lemma forwarded_flush_from: "list_all (flush_from enc repl E) xs \<Longrightarrow> forwarded xs = []"
  by (induction xs rule: forwarded.induct) simp_all

lemma process_event_from_Inr:
  assumes "base_ok E st" and "data \<in> E" and "process_event enc repl st data = (o1, Inr st1)"
  obtains pre t where "o1 = pre @ [Forwarded t]" and "list_all (flush_from enc repl E) pre"
    and "forward_of data t" and "base_ok E st1"
proof -
  from process_event_from [OF assms(1,2), of enc repl] assms(3)
  have ne: "o1 \<noteq> []" and pre: "list_all (flush_from enc repl E) (butlast o1)"
    and l: "forward_from data (last o1)" and c: "base_ok E st1"
    by (simp_all add: shapeR_def)
  from l obtain t where t: "last o1 = Forwarded t" and fo: "forward_of data t"
    by (cases "last o1") simp_all
  from ne t have "o1 = butlast o1 @ [Forwarded t]"
    by (metis append_butlast_last_id)
  from that [OF this pre fo c] show ?thesis .
qed

lemma stream_loop_traced:
  assumes "base_ok E st"
    and "stream_loop loads enc repl disc k st lines = (outs, oc)"
  shows "list_all2 forward_of (take (length (forwarded outs)) (data_events loads lines))
           (forwarded outs)
         \<and> list_all (flush_traced enc repl (E \<union> set (data_events loads lines))) outs"
  using assms
proof (induction lines arbitrary: k st outs oc E)
  case Nil
  then show ?case by auto
next
  case (Cons line rest)
  show ?case
  proof (cases "disc k")
    case True
    with Cons.prems show ?thesis by auto
  next
    case nd: False
    show ?thesis
    proof (cases "startswith line ''data: ''")
      case False
      with nd Cons.prems have "stream_loop loads enc repl disc (Suc k) st rest = (outs, oc)"
        by simp
      from Cons.IH [OF Cons.prems(1) this] False show ?thesis by simp
    next
      case sw: True
      show ?thesis
      proof (cases "strip line = ''data: [DONE]''")
        case True
        obtain o1 r where f: "flush_if True enc repl st = (o1, r)" by (cases "flush_if True enc repl st")
        from flush_if_from [OF Cons.prems(1), of enc repl True] f
        have fl: "list_all (flush_from enc repl E) o1"
          and c1: "case r of Inl e \<Rightarrow> True | Inr st1 \<Rightarrow> base_ok E st1"
          by (auto simp: okR_def split: sum.splits)
        have fl': "list_all (flush_traced enc repl (E \<union> set (data_events loads rest))) o1"
          using fl by (rule flush_from_all_mono) simp
        show ?thesis
        proof (cases r)
          case (Inl e)
          with nd sw True f Cons.prems(2) have "outs = o1" and "oc = Raised e" by simp_all
          with fl fl' True sw show ?thesis by (simp add: forwarded_flush_from)
        next
          case (Inr st1)
          obtain o2 r2 where l: "stream_loop loads enc repl disc (Suc k) st1 rest = (o2, r2)"
            by (cases "stream_loop loads enc repl disc (Suc k) st1 rest")
          from Inr c1 have "base_ok E st1" by simp
          from Cons.IH [OF this l] have ih: "list_all2 forward_of
                (take (length (forwarded o2)) (data_events loads rest)) (forwarded o2)
              \<and> list_all (flush_traced enc repl (E \<union> set (data_events loads rest))) o2" .
          from nd sw True f Inr l Cons.prems(2)
          have "outs = o1 @ [Raw (line @ [CHR 0x0A, CHR 0x0A])] @ o2" and "oc = r2" by simp_all
          with ih fl fl' True sw show ?thesis
            by (simp add: forwarded_flush_from)
        qed
      next
        case nds: False
        show ?thesis
        proof (cases "loads (strip (drop 6 line))")
          case None
          with nd sw nds Cons.prems(2) show ?thesis by auto
        next
          case (Some data)
          let ?E1 = "insert data E"
          have de: "data_events loads (line # rest) = data # data_events loads rest"
            using sw nds Some by simp
          have b1: "base_ok ?E1 st" using Cons.prems(1) by (rule base_ok_mono) auto
          obtain o1 r where pe: "process_event enc repl st data = (o1, r)"
            by (cases "process_event enc repl st data")
          show ?thesis
          proof (cases r)
            case (Inl e)
            with nd sw nds Some pe Cons.prems(2) have o: "outs = o1" and "oc = Raised e" by simp_all
            from process_event_from [OF b1, of data enc repl] pe Inl
            have fl: "list_all (flush_from enc repl ?E1) o1" by (simp add: shapeR_def)
            then have "list_all (flush_traced enc repl (E \<union> set (data_events loads (line # rest)))) o1"
              unfolding de by (rule flush_from_all_mono) auto
            with o fl show ?thesis by (simp add: forwarded_flush_from)
          next
            case (Inr st1)
            from process_event_from_Inr [OF b1 _ pe [unfolded Inr]]
            obtain pre t where o1: "o1 = pre @ [Forwarded t]"
              and pre: "list_all (flush_from enc repl ?E1) pre"
              and fo: "forward_of data t" and c1: "base_ok ?E1 st1" by blast
            obtain o2 r2 where l: "stream_loop loads enc repl disc (Suc k) st1 rest = (o2, r2)"
              by (cases "stream_loop loads enc repl disc (Suc k) st1 rest")
            from Cons.IH [OF c1 l] have ih: "list_all2 forward_of
                  (take (length (forwarded o2)) (data_events loads rest)) (forwarded o2)
                \<and> list_all (flush_traced enc repl (?E1 \<union> set (data_events loads rest))) o2" .
            have E: "E \<union> set (data_events loads (line # rest)) = ?E1 \<union> set (data_events loads rest)"
              unfolding de by auto
            have pre': "list_all (flush_traced enc repl (?E1 \<union> set (data_events loads rest))) pre"
              using pre by (rule flush_from_all_mono) blast
            from nd sw nds Some pe Inr l Cons.prems(2)
            have "outs = o1 @ o2" and "oc = r2" by simp_all
            with ih o1 pre pre' fo show ?thesis
              unfolding E de by (simp add: forwarded_flush_from)
          qed
        qed
      qed
    qed
  qed
qed

lemma base_ok_init: "base_ok {} init"
  by (simp add: base_ok_def init_def)

lemma flush_traced_member:
  assumes "list_all (flush_traced enc repl E) outs" and "Flushed j n a i rs \<in> set outs"
  shows "\<exists>e\<in>E. set_content e (repl (enc n a i rs)) = Inr j"
  using assms by (auto simp: list_all_iff)


section \<open>The outbound rewrite\<close>

lemma bindE_Inr [simp]: "bindE (Inr x) f = f x"
  by (simp add: bindE_def)

lemma bindE_Inl [simp]: "bindE (Inl e) f = Inl e"
  by (simp add: bindE_def)

lemma map_of_dict_set:
  "map_of (dict_set k v kvs) k' = (if k' = k then Some v else map_of kvs k')"
  by (simp add: dict_set_def update_conv')

lemma dict_set_twice: "dict_set k v (dict_set k v' kvs) = dict_set k v kvs"
  by (simp add: dict_set_def)

lemmas dict_simps = map_of_dict_set dict_set_twice

lemma add_schemas_listed:
  assumes "ss = [] \<or> tools_listed rkvs"
  shows "\<exists>rkvs'. add_schemas ss (JObj rkvs) = Inr (JObj rkvs')
           \<and> map_of rkvs' ''tools'' =
               (if ss = [] then map_of rkvs ''tools'' else Some (JArr (listed_tools rkvs @ ss)))
           \<and> (\<forall>k. k \<noteq> ''tools'' \<longrightarrow> map_of rkvs' k = map_of rkvs k)"
  using assms
  by (auto simp: dict_simps add_schemas_def tools_listed_def listed_tools_def tools_plus_def py_or_def
      split: option.splits json.splits)

lemma force_tool_choice_result:
  "\<exists>rkvs'. force_tool_choice force (JObj rkvs) = Inr (JObj rkvs')
           \<and> map_of rkvs' ''tool_choice'' =
               (if force \<and> truthy (case map_of rkvs ''tools'' of None \<Rightarrow> JNull | Some v \<Rightarrow> v)
                then Some (JStr ''required'') else map_of rkvs ''tool_choice'')
           \<and> (\<forall>k. k \<noteq> ''tool_choice'' \<longrightarrow> map_of rkvs' k = map_of rkvs k)"
  by (auto simp: dict_simps force_tool_choice_def)

lemma rewrite_first_prompt:
  assumes m: "map_of rkvs ''messages'' = Some (JArr (JObj mkvs # rest))"
    and ro: "map_of mkvs ''role'' = Some ro" "ro = JStr ''system'' \<or> ro = JStr ''user''"
    and c: "map_of mkvs ''content'' = Some c"
    and b: "build_tool_parser co (prompt_text (str_other co) c) (\<not> disable_strict_schemas cfg)
              = Inr (parser, prompt')"
    and t: "schemas co parser = [] \<or> tools_listed rkvs"
  shows "\<exists>rkvs'. rewrite_first co cfg (JObj rkvs) = Inr (JObj rkvs', Some parser)
           \<and> map_of rkvs' ''messages'' =
               Some (JArr (JObj (dict_set ''content'' (JStr prompt')
                                   (dict_set ''role'' (JStr ''system'') mkvs)) # rest))
           \<and> map_of rkvs' ''tools'' =
               (if schemas co parser = [] then map_of rkvs ''tools''
                else Some (JArr (listed_tools rkvs @ schemas co parser)))
           \<and> map_of rkvs' ''tool_choice'' =
               (if force_tool_calling cfg
                   \<and> truthy (case map_of rkvs' ''tools'' of None \<Rightarrow> JNull | Some v \<Rightarrow> v)
                then Some (JStr ''required'') else map_of rkvs ''tool_choice'')
           \<and> (\<forall>k. k \<noteq> ''messages'' \<and> k \<noteq> ''tools'' \<and> k \<noteq> ''tool_choice''
                  \<longrightarrow> map_of rkvs' k = map_of rkvs k)"
proof -
  let ?m' = "JObj (dict_set ''content'' (JStr prompt') (dict_set ''role'' (JStr ''system'') mkvs))"
  let ?r2 = "dict_set ''messages'' (JArr (?m' # rest)) rkvs"
  have fp: "first_is_prompt (JObj rkvs) = Inr True"
    using m ro by (auto simp: dict_simps first_is_prompt_def)
  have sp: "system_prompt_of (str_other co) (JObj rkvs) = Inr (prompt_text (str_other co) c)"
    using m c by (simp add: dict_simps system_prompt_of_def)
  have s1: "set_message0 (JObj rkvs) ''role'' (JStr ''system'') =
      Inr (JObj (dict_set ''messages'' (JArr (JObj (dict_set ''role'' (JStr ''system'') mkvs) # rest)) rkvs))"
    using m by (simp add: dict_simps)
  have s2: "set_message0 (JObj (dict_set ''messages''
        (JArr (JObj (dict_set ''role'' (JStr ''system'') mkvs) # rest)) rkvs))
      ''content'' (JStr prompt') = Inr (JObj ?r2)"
    by (simp add: dict_simps)
  have t2: "schemas co parser = [] \<or> tools_listed ?r2"
    using t by (simp add: dict_simps tools_listed_def)
  from add_schemas_listed [OF t2] obtain r3 where
    a3: "add_schemas (schemas co parser) (JObj ?r2) = Inr (JObj r3)"
    and t3: "map_of r3 ''tools'' =
               (if schemas co parser = [] then map_of ?r2 ''tools''
                else Some (JArr (listed_tools ?r2 @ schemas co parser)))"
    and k3: "\<forall>k. k \<noteq> ''tools'' \<longrightarrow> map_of r3 k = map_of ?r2 k"
    by blast
  from force_tool_choice_result [of "force_tool_calling cfg" r3] obtain r4 where
    a4: "force_tool_choice (force_tool_calling cfg) (JObj r3) = Inr (JObj r4)"
    and c4: "map_of r4 ''tool_choice'' =
               (if force_tool_calling cfg \<and> truthy (case map_of r3 ''tools'' of None \<Rightarrow> JNull | Some v \<Rightarrow> v)
                then Some (JStr ''required'') else map_of r3 ''tool_choice'')"
    and k4: "\<forall>k. k \<noteq> ''tool_choice'' \<longrightarrow> map_of r4 k = map_of r3 k"
    by blast
  have rf: "rewrite_first co cfg (JObj rkvs) = Inr (JObj r4, Some parser)"
    by (simp add: dict_simps rewrite_first_def fp sp b s1 s2 a3 a4 del: set_message0.simps)
  have lt: "listed_tools ?r2 = listed_tools rkvs" by (simp add: dict_simps listed_tools_def)
  show ?thesis
    apply (rule exI [of _ r4])
    using rf t3 c4 k3 k4 lt by (simp add: dict_simps)
qed


lemma dump_json_ok:
  assumes "can_dump can_open path"
  shows "dump_json can_open path (Inr v) = (dumped path v, Inr ())"
  using assms by (auto simp: dict_simps dump_json_def can_dump_def dumped_def split: option.splits)

lemma process_request_unbound:
  assumes "map_of rkvs ''messages'' = Some ms"
    and "\<not> truthy ms \<or> (\<exists>mkvs rest ro. ms = JArr (JObj mkvs # rest)
            \<and> map_of mkvs ''role'' = Some ro \<and> ro \<noteq> JStr ''system'' \<and> ro \<noteq> JStr ''user'')"
  shows "process_request co can_open cfg (JObj rkvs) = ([], Inl UnboundLocalError)"
proof -
  from assms have "rewrite_first co cfg (JObj rkvs) = Inr (JObj rkvs, None)"
    by (auto simp: dict_simps rewrite_first_def first_is_prompt_def)
  then show ?thesis by (simp add: dict_simps process_request_def rewrite_messages_def)
qed

lemma process_request_returns:
  assumes m: "map_of rkvs ''messages'' = Some (JArr (JObj mkvs # rest))"
    and ro: "map_of mkvs ''role'' = Some ro" "ro = JStr ''system'' \<or> ro = JStr ''user''"
    and c: "map_of mkvs ''content'' = Some c"
    and b: "build_tool_parser co (prompt_text (str_other co) c) (\<not> disable_strict_schemas cfg)
              = Inr (parser, prompt')"
    and t: "schemas co parser = [] \<or> tools_listed rkvs"
    and mo: "modify_xml_messages_to_tool_calls co parser
               (JArr (JObj (dict_set ''content'' (JStr prompt')
                              (dict_set ''role'' (JStr ''system'') mkvs)) # rest)) = Inr ms1"
    and ap: "apply_replacement_to_messages co ms1 = Inr (ms2, transform)"
    and d1: "can_dump can_open (message_dump_path cfg)"
    and d2: "can_dump can_open (tool_dump_path cfg)"
  shows "\<exists>rkvs'.
           process_request co can_open cfg (JObj rkvs) =
             (dumped (message_dump_path cfg) ms2
                @ dumped (tool_dump_path cfg)
                    (py_or (case map_of rkvs' ''tools'' of None \<Rightarrow> JNull | Some v \<Rightarrow> v) (JStr ''[]'')),
              Inr (JObj rkvs', parser, transform))
           \<and> map_of rkvs' ''messages'' = Some ms2
           \<and> map_of rkvs' ''tools'' =
               (if schemas co parser = [] then map_of rkvs ''tools''
                else Some (JArr (listed_tools rkvs @ schemas co parser)))
           \<and> map_of rkvs' ''tool_choice'' =
               (if force_tool_calling cfg
                   \<and> truthy (case map_of rkvs' ''tools'' of None \<Rightarrow> JNull | Some v \<Rightarrow> v)
                then Some (JStr ''required'') else map_of rkvs ''tool_choice'')
           \<and> (\<forall>k. k \<noteq> ''messages'' \<and> k \<noteq> ''tools'' \<and> k \<noteq> ''tool_choice''
                  \<longrightarrow> map_of rkvs' k = map_of rkvs k)"
proof -
  from rewrite_first_prompt [OF m ro c b t] obtain r4 where
    rf: "rewrite_first co cfg (JObj rkvs) = Inr (JObj r4, Some parser)"
    and m4: "map_of r4 ''messages'' =
               Some (JArr (JObj (dict_set ''content'' (JStr prompt')
                                   (dict_set ''role'' (JStr ''system'') mkvs)) # rest))"
    and t4: "map_of r4 ''tools'' =
               (if schemas co parser = [] then map_of rkvs ''tools''
                else Some (JArr (listed_tools rkvs @ schemas co parser)))"
    and c4: "map_of r4 ''tool_choice'' =
               (if force_tool_calling cfg
                   \<and> truthy (case map_of r4 ''tools'' of None \<Rightarrow> JNull | Some v \<Rightarrow> v)
                then Some (JStr ''required'') else map_of rkvs ''tool_choice'')"
    and k4: "\<forall>k. k \<noteq> ''messages'' \<and> k \<noteq> ''tools'' \<and> k \<noteq> ''tool_choice''
                  \<longrightarrow> map_of r4 k = map_of rkvs k"
    by blast
  let ?r = "dict_set ''messages'' ms2 r4"
  have rm: "rewrite_messages co (JObj r4) (Some parser) = Inr (JObj ?r, parser, transform)"
    using m4 mo ap by (simp add: dict_simps rewrite_messages_def)
  have w1: "dump_json can_open (message_dump_path cfg) (getitem (JObj ?r) ''messages'') =
      (dumped (message_dump_path cfg) ms2, Inr ())"
    using dump_json_ok [OF d1] by (simp add: dict_simps)
  have w2: "dump_json can_open (tool_dump_path cfg) (tools_or_text (JObj ?r)) =
      (dumped (tool_dump_path cfg)
         (py_or (case map_of ?r ''tools'' of None \<Rightarrow> JNull | Some v \<Rightarrow> v) (JStr ''[]'')), Inr ())"
    using dump_json_ok [OF d2] by (simp add: dict_simps tools_or_text_def)
  have pr: "process_request co can_open cfg (JObj rkvs) =
      (dumped (message_dump_path cfg) ms2
         @ dumped (tool_dump_path cfg)
             (py_or (case map_of ?r ''tools'' of None \<Rightarrow> JNull | Some v \<Rightarrow> v) (JStr ''[]'')),
       Inr (JObj ?r, parser, transform))"
    by (simp add: dict_simps process_request_def rf rm write_dumps_def dump_json_ok [OF d1] dump_json_ok [OF d2]
        tools_or_text_def)
  show ?thesis
    apply (rule exI [of _ ?r])
    using pr t4 c4 k4 by (simp add: dict_simps)
qed


section \<open>Configuration reads\<close>

lemma fold_update_config:
  "fold (\<lambda>data g'. snd (update_config env data g')) between (Some c) =
     Some (fold (\<lambda>data c'. model_copy c' data) between c)"
  by (induction between arbitrary: c) (simp_all add: update_config_def get_config_def)

lemma get_config_Some: "snd (get_config env g) = Some (fst (get_config env g))"
  by (simp add: get_config_def split: option.splits)

lemma get_config_bound: "get_config env (Some c) = (c, Some c)"
  by (simp add: get_config_def)

section \<open>Cancellation\<close>

text \<open>
  Claim C6. The disconnection signal is polled once per upstream line, before the line is
  looked at. When the poll made for a line answers that the client is gone, the generator
  ends there: what it has yielded is exactly what the lines before that one produced, nothing
  is yielded for that line or any later one, and the fragment that may still be open in the
  state reached (\<open>st'\<close>, whatever its buffer holds) is not flushed.
\<close>

theorem disconnect_stops_output:
  assumes "\<not> is_error r"
    and "body_lines r = pre @ line # post"
    and "is_disconnected (length pre)"
  shows "handle_stream_response loads enc repl is_disconnected r =
           (case stream_loop loads enc repl is_disconnected 0 init pre of
              (outs, Completed st') \<Rightarrow> (outs, Disconnected)
            | (outs, oc) \<Rightarrow> (outs, oc))"
  using assms stream_loop_disconnect [of is_disconnected 0 pre loads enc repl init line post]
  by (simp add: handle_stream_response_def)

text \<open>
  Five lines, the client gone at the third poll: the two events read before it are forwarded,
  and the fragment they opened (its buffer holds \<open>{}x\<close>) is never flushed.
\<close>

theorem disconnect_stops_output_witness:
  "\<not> is_error \<lparr> status_code = 200, body_text = [],
       body_lines = [''data: a1'', ''data: a2''] @ ''data: fin'' # [''data: [DONE]'', []] \<rparr>
   \<and> (\<lambda>k. k = 2) (length [''data: a1'', ''data: a2''])
   \<and> handle_stream_response sample_loads sample_enc id (\<lambda>k. k = 2)
        \<lparr> status_code = 200, body_text = [],
          body_lines = [''data: a1'', ''data: a2''] @ ''data: fin'' # [''data: [DONE]'', []] \<rparr> =
      ([Forwarded (sample_fragment [(''role'', JStr ''assistant'')] 0 0 ''c1'' ''f'' ''{}''),
        Forwarded (sample_fragment [] 0 0 [] [] ''x'')], Disconnected)"
  using disconnect_stops_output [of
      "\<lparr> status_code = 200, body_text = [],
         body_lines = [''data: a1'', ''data: a2''] @ ''data: fin'' # [''data: [DONE]'', []] \<rparr>"
      "[''data: a1'', ''data: a2'']" "''data: fin''" "[''data: [DONE]'', []]" "\<lambda>k. k = 2"
      sample_loads sample_enc id]
  by (simp add: is_error_def step_defs line_defs sample_defs)

section \<open>Backend errors\<close>

text \<open>
  Claim C5. When the backend answers with an error status (400 to 599), a streaming request
  gets the error body as one event line and then the sentinel line, and nothing else: no
  line of the body is read, so nothing is reconstructed or flushed. A non-streaming request
  gets the backend's status code and body only when the body is JSON: line 243 parses the
  body with \<^verbatim>\<open>r.json()\<close>, and for a body that is not JSON (a proxy's HTML page, say) this
  raises, so that neither the backend's status code nor its body reaches the client.
\<close>

theorem backend_error_reply:
  assumes "is_error r"
  shows "create_completion_reply loads to_xml r =
           (case loads (body_text r) of
              None \<Rightarrow> Inl JSONDecodeError
            | Some j \<Rightarrow> Inr (status_code r, j))
         \<and> handle_stream_response loads enc repl is_disconnected r =
             ([Raw (''data: '' @ body_text r @ [CHR 0x0A, CHR 0x0A]),
               Raw (''data: [DONE]'' @ [CHR 0x0A, CHR 0x0A])], Completed init)"
  using assms by (simp add: create_completion_reply_def handle_stream_response_def)

text \<open>
  A backend that answers 502 with an HTML page: the streaming path forwards the page, the
  non-streaming path raises. With a JSON body (429) both paths pass the body on.
\<close>

theorem backend_error_reply_witness:
  "is_error \<lparr> status_code = 502, body_text = ''<html>'', body_lines = [] \<rparr>
   \<and> sample_loads ''<html>'' = None
   \<and> create_completion_reply sample_loads id
        \<lparr> status_code = 502, body_text = ''<html>'', body_lines = [] \<rparr> =
      Inl JSONDecodeError
   \<and> handle_stream_response sample_loads sample_enc id (\<lambda>k. False)
        \<lparr> status_code = 502, body_text = ''<html>'', body_lines = [] \<rparr> =
      ([Raw (''data: <html>'' @ [CHR 0x0A, CHR 0x0A]),
        Raw (''data: [DONE]'' @ [CHR 0x0A, CHR 0x0A])], Completed init)
   \<and> is_error \<lparr> status_code = 429, body_text = ''fin'', body_lines = [''data: a1''] \<rparr>
   \<and> create_completion_reply sample_loads id
        \<lparr> status_code = 429, body_text = ''fin'', body_lines = [''data: a1''] \<rparr> =
      Inr (429, sample_finish)"
  using backend_error_reply [of
      "\<lparr> status_code = 502, body_text = ''<html>'', body_lines = [] \<rparr>"
      sample_loads id sample_enc id "\<lambda>k. False"]
    backend_error_reply [of
      "\<lparr> status_code = 429, body_text = ''fin'', body_lines = [''data: a1''] \<rparr>"
      sample_loads id sample_enc id "\<lambda>k. False"]
  by (simp add: is_error_def sample_loads_def)

section \<open>The finish reason\<close>

text \<open>
  Claim C2. The last chunk of a chat completion carries its finish reason in the choice,
  \<^verbatim>\<open>choices[0].finish_reason\<close>. The reconstructor reads \<^verbatim>\<open>data.get("finish_reason")\<close>, the top
  level of the event, finds nothing there and forwards the event as it came, the
  tool-invocation finish reason included. Only a finish reason at the top level of the event
  is rewritten.
\<close>

theorem finish_reason_in_choice_is_forwarded:
  "choice_field sample_finish ''finish_reason'' = Some (JStr ''tool_calls'')
   \<and> top_field sample_finish ''finish_reason'' = None
   \<and> fst (process_event enc repl init sample_finish) = [Forwarded sample_finish]
   \<and> top_field sample_finish_top ''finish_reason'' = Some (JStr ''tool_calls'')
   \<and> fst (process_event enc repl init sample_finish_top) =
       [Forwarded (JObj [(''choices'', JArr [JObj [(''index'', JInt 0), (''delta'', JObj [])]]),
          (''finish_reason'', JStr ''stop'')])]"
  by (simp add: choice_field_def choice0_def top_field_def step_defs sample_defs
      sample_finish_top_def)

section \<open>What the forwarded events hold\<close>

text \<open>
  Claim C1, as amended. The reconstructor clears nothing. For a stream without a backend
  error, the events it forwards at the end of its iterations are, in order, the events it
  read, each changed in at most two places: a finish reason \<^verbatim>\<open>tool_calls\<close> at the top
  level has become \<^verbatim>\<open>stop\<close>, and a string may have been written into the \<^verbatim>\<open>content\<close>
  of the delta (\<open>forward_of\<close>; the witness shows an event that carries a flush in its own
  iteration and is forwarded with the text of that flush). In particular the
  \<^verbatim>\<open>tool_calls\<close> and the \<^verbatim>\<open>reasoning_content\<close> of the delta are forwarded exactly as the
  backend sent them (\<open>same_fields\<close>). Every flush line is one of the events read, one with
  a non-empty \<^verbatim>\<open>tool_calls\<close>, in which only the \<^verbatim>\<open>content\<close> of the delta has been set,
  to the text made of the name, arguments, call id and reasoning given to the flush; so the
  carrier still holds its \<^verbatim>\<open>tool_calls\<close>. When the stream is read to its end, every event
  read has been forwarded.
\<close>

theorem forwarded_events_keep_fields:
  assumes "\<not> is_error r"
    and "handle_stream_response loads enc repl is_disconnected r = (outs, oc)"
  shows "list_all2 forward_of
           (take (length (forwarded outs)) (data_events loads (body_lines r))) (forwarded outs)
         \<and> list_all2 same_fields (forwarded outs)
             (take (length (forwarded outs)) (data_events loads (body_lines r)))
         \<and> (\<forall>j n a i rs. Flushed j n a i rs \<in> set outs \<longrightarrow>
              has_tool_calls j
              \<and> (\<exists>e\<in>set (data_events loads (body_lines r)).
                    has_tool_calls e \<and> set_content e (repl (enc n a i rs)) = Inr j))
         \<and> (is_completed oc \<longrightarrow>
              length (forwarded outs) = length (data_events loads (body_lines r)))"
proof -
  from assms have run:
    "stream_loop loads enc repl is_disconnected 0 init (body_lines r) = (outs, oc)"
    by (simp add: handle_stream_response_def)
  from stream_loop_traced [OF base_ok_init run]
  have fw: "list_all2 forward_of
      (take (length (forwarded outs)) (data_events loads (body_lines r))) (forwarded outs)"
    and tr: "list_all (flush_traced enc repl (set (data_events loads (body_lines r)))) outs"
    by simp_all
  from stream_loop_fields [OF carrier_ok_init run]
  have sf: "list_all2 same_fields (forwarded outs)
      (take (length (forwarded outs)) (data_events loads (body_lines r)))"
    and fs: "list_all flush_sound outs"
    and len: "is_completed oc \<longrightarrow>
      length (forwarded outs) = length (data_events loads (body_lines r))"
    by simp_all
  have fl: "has_tool_calls j
      \<and> (\<exists>e\<in>set (data_events loads (body_lines r)).
            has_tool_calls e \<and> set_content e (repl (enc n a i rs)) = Inr j)"
    if m: "Flushed j n a i rs \<in> set outs" for j n a i rs
  proof -
    from flush_sound_member [OF fs m] have hj: "has_tool_calls j" by simp
    from flush_traced_member [OF tr m] obtain e
      where e: "e \<in> set (data_events loads (body_lines r))"
        and sc: "set_content e (repl (enc n a i rs)) = Inr j" by blast
    from has_tool_calls_set_content [OF sc] hj have "has_tool_calls e" by simp
    with hj e sc show ?thesis by blast
  qed
  from fw sf fl len show ?thesis by blast
qed

text \<open>
  A first fragment (\<open>a1\<close>) and a last one that also carries the finish reason at its top
  level (\<open>t1\<close>): the first is forwarded as it came; the second carries the flush, and is
  then forwarded with the text of the flush in its delta, its \<^verbatim>\<open>tool_calls\<close> still in
  place, and the finish reason \<^verbatim>\<open>stop\<close>.
\<close>

theorem forwarded_events_keep_fields_witness:
  "\<not> is_error \<lparr> status_code = 200, body_text = [], body_lines = [''data: a1'', ''data: t1''] \<rparr>
   \<and> handle_stream_response sample_loads_closing sample_enc id (\<lambda>k. False)
        \<lparr> status_code = 200, body_text = [], body_lines = [''data: a1'', ''data: t1''] \<rparr> =
      ([Forwarded (sample_fragment [(''role'', JStr ''assistant'')] 0 0 ''c1'' ''f'' ''{}''),
        Flushed (sample_closing [(''content'', JStr ''<f id=c1>{}x'')] ''tool_calls'')
          ''f'' ''{}x'' ''c1'' [],
        Forwarded (sample_closing [(''content'', JStr ''<f id=c1>{}x'')] ''stop'')],
       Completed
         \<lparr> buffer = [],
           last_chunk = Some (sample_closing [(''content'', JStr ''<f id=c1>{}x'')] ''stop''),
           role = JStr ''assistant'', choice_index = JInt 0, tool_call_index = JInt 0,
           tool_call_id = [], tool_name = [], reasoning_content_buffer = [] \<rparr>)
   \<and> data_events sample_loads_closing [''data: a1'', ''data: t1''] =
       [sample_fragment [(''role'', JStr ''assistant'')] 0 0 ''c1'' ''f'' ''{}'',
        sample_closing [] ''tool_calls'']
   \<and> forward_of (sample_closing [] ''tool_calls'')
        (sample_closing [(''content'', JStr ''<f id=c1>{}x'')] ''stop'')
   \<and> set_content (sample_closing [] ''tool_calls'') (id (sample_enc ''f'' ''{}x'' ''c1'' [])) =
       Inr (sample_closing [(''content'', JStr ''<f id=c1>{}x'')] ''tool_calls'')
   \<and> has_tool_calls (sample_closing [(''content'', JStr ''<f id=c1>{}x'')] ''stop'')"
proof -
  let ?r = "\<lparr> status_code = 200, body_text = [], body_lines = [''data: a1'', ''data: t1''] \<rparr>"
  let ?st = "\<lparr> buffer = [],
           last_chunk = Some (sample_closing [(''content'', JStr ''<f id=c1>{}x'')] ''stop''),
           role = JStr ''assistant'', choice_index = JInt 0, tool_call_index = JInt 0,
           tool_call_id = [], tool_name = [], reasoning_content_buffer = [] \<rparr>"
  have ne: "\<not> is_error ?r" by (simp add: is_error_def)
  have run: "handle_stream_response sample_loads_closing sample_enc id (\<lambda>k. False) ?r =
      ([Forwarded (sample_fragment [(''role'', JStr ''assistant'')] 0 0 ''c1'' ''f'' ''{}''),
        Flushed (sample_closing [(''content'', JStr ''<f id=c1>{}x'')] ''tool_calls'')
          ''f'' ''{}x'' ''c1'' [],
        Forwarded (sample_closing [(''content'', JStr ''<f id=c1>{}x'')] ''stop'')],
       Completed ?st)"
    by (simp add: is_error_def handle_stream_response_def step_defs line_defs
        sample_fragment_def sample_enc_def init_def sample_loads_closing_def sample_closing_def)
  have de: "data_events sample_loads_closing [''data: a1'', ''data: t1''] =
       [sample_fragment [(''role'', JStr ''assistant'')] 0 0 ''c1'' ''f'' ''{}'',
        sample_closing [] ''tool_calls'']"
    by (simp add: line_defs sample_loads_closing_def)
  have sc: "set_content (sample_closing [] ''tool_calls'') (id (sample_enc ''f'' ''{}x'' ''c1'' [])) =
       Inr (sample_closing [(''content'', JStr ''<f id=c1>{}x'')] ''tool_calls'')"
    by (simp add: set_content_def sample_closing_def sample_enc_def dict_set_def)
  have ht: "has_tool_calls (sample_closing [(''content'', JStr ''<f id=c1>{}x'')] ''stop'')"
    by (simp add: has_tool_calls_def delta_field_def delta0_def choice0_def sample_closing_def)
  from forwarded_events_keep_fields [OF ne run] de
  have "forward_of (sample_closing [] ''tool_calls'')
        (sample_closing [(''content'', JStr ''<f id=c1>{}x'')] ''stop'')"
    by simp
  with ne run de sc ht show ?thesis by blast
qed

text \<open>
  The claim as it was stated fails on the first event of an ordinary stream: the event is
  forwarded with the \<^verbatim>\<open>tool_calls\<close> array and the \<^verbatim>\<open>reasoning_content\<close> it came with.
\<close>

theorem forwarded_event_holds_tool_calls_counterexample:
  "fst (handle_stream_response sample_loads sample_enc id (\<lambda>k. False)
        \<lparr> status_code = 200, body_text = [], body_lines = [''data: r1''] \<rparr>) =
     [Forwarded (sample_fragment
        [(''role'', JStr ''assistant''), (''reasoning_content'', JStr ''hm'')] 0 0 ''c1'' ''f'' ''{}'')]
   \<and> delta_field (sample_fragment
        [(''role'', JStr ''assistant''), (''reasoning_content'', JStr ''hm'')] 0 0 ''c1'' ''f'' ''{}'')
        ''tool_calls'' =
      Some (JArr [JObj [(''index'', JInt 0), (''id'', JStr ''c1''),
        (''function'', JObj [(''name'', JStr ''f''), (''arguments'', JStr ''{}'')])]])
   \<and> delta_field (sample_fragment
        [(''role'', JStr ''assistant''), (''reasoning_content'', JStr ''hm'')] 0 0 ''c1'' ''f'' ''{}'')
        ''reasoning_content'' = Some (JStr ''hm'')"
  by (simp add: is_error_def handle_stream_response_def step_defs line_defs sample_defs
      delta_field_def delta0_def choice0_def)

section \<open>One tool call, one flush\<close>

text \<open>
  Claim C3, as amended. Take a stream without a backend error and without a disconnection,
  whose data lines hold, from the first on, \<open>N \<ge> 1\<close> fragments of one tool call (call
  index \<open>j\<close>) on one choice (index \<open>c\<close>) and then one terminal event. Each fragment has
  the choice index \<open>c\<close>, no role or the assistant's, a first \<^verbatim>\<open>tool_calls\<close> entry with the
  index \<open>j\<close> and a \<^verbatim>\<open>function\<close> object, strings or nothing for name, arguments and id,
  and no finish reason at its top level (\<open>is_fragment\<close>); the first fragment names the
  assistant's role; the fragments together bring a non-empty arguments text. The terminal
  event has a delta without a tool-call fragment and a finish reason, at the top level or in
  the choice (\<open>is_terminal\<close>). Then the reconstructor forwards the fragments as they came,
  yields exactly one flush line, and forwards the terminal event (a finish reason
  \<^verbatim>\<open>tool_calls\<close> at its top level rewritten to \<^verbatim>\<open>stop\<close>). The name, the arguments text
  and the call id given to the flush are the concatenations, in arrival order, of the pieces
  of the \<open>N\<close> fragments; the carrier is the last fragment with the text of the flush as
  the \<^verbatim>\<open>content\<close> of its delta.
\<close>

theorem one_call_one_flush:
  assumes "\<not> is_error r"
    and "frags \<noteq> []"
    and "list_all (is_fragment c j) frags"
    and "delta_field (hd frags) ''role'' = Some (JStr ''assistant'')"
    and "is_terminal t"
    and "concat (map frag_args frags) \<noteq> []"
    and "list_all2 (event_line loads)
           (filter (\<lambda>l. startswith l ''data: '') (body_lines r)) (frags @ [t])"
    and "\<forall>k. \<not> is_disconnected k"
  shows "\<exists>carrier st'.
           handle_stream_response loads enc repl is_disconnected r =
             (map Forwarded frags @
                [Flushed carrier (concat (map frag_name frags)) (concat (map frag_args frags))
                   (concat (map frag_id frags)) (concat (map ev_reasoning (frags @ [t]))),
                 Forwarded (remap_finish t)],
              Completed st')
           \<and> set_content (last frags)
                 (repl (enc (concat (map frag_name frags)) (concat (map frag_args frags))
                    (concat (map frag_id frags)) (concat (map ev_reasoning (frags @ [t])))))
               = Inr carrier"
proof -
  from assms(2) obtain e es where frags: "frags = e # es" by (cases frags) auto
  from assms(7) frags obtain l1 ls lt where
    lines: "filter (\<lambda>l. startswith l ''data: '') (body_lines r) = l1 # ls @ [lt]"
    and el1: "event_line loads l1 e" and els: "list_all2 (event_line loads) ls es"
    and elt: "event_line loads lt t"
    by (auto simp: list_all2_Cons2 list_all2_append2 list_all2_Nil2)
  from assms(3) frags have fe: "is_fragment c j e" and fes: "list_all (is_fragment c j) es"
    by simp_all
  from assms(4) frags have ro: "delta_field e ''role'' = Some (JStr ''assistant'')" by simp
  let ?N = "concat (map frag_name frags)" and ?A = "concat (map frag_args frags)"
  let ?I = "concat (map frag_id frags)" and ?R = "concat (map ev_reasoning (frags @ [t]))"
  let ?st1 = "init\<lparr> reasoning_content_buffer := reasoning_content_buffer init @ ev_reasoning e,
                      choice_index := JInt c, role := JStr ''assistant'',
                      tool_name := tool_name init @ frag_name e,
                      buffer := buffer init @ frag_args e,
                      tool_call_id := tool_call_id init @ frag_id e,
                      tool_call_index := JInt j,
                      last_chunk := Some e \<rparr>"
  let ?st2 = "after_fragments ?st1 es"
  have nd: "\<not> is_disconnected k" for k using assms(8) by simp
  have pe1: "process_event enc repl init e = ([Forwarded e], Inr ?st1)"
    using fe ro by (intro process_event_fragment) (simp_all add: init_def)
  have last_frag: "is_fragment c j (last frags)"
    using assms(2,3) by (simp add: list_all_iff)
  then obtain dkvs where "delta0 (last frags) = Some dkvs" by (rule is_fragment_delta0)
  then obtain carrier where sc: "set_content (last frags) (repl (enc ?N ?A ?I ?R)) = Inr carrier"
    by (rule set_content_delta0)
  have b2: "buffer ?st2 = ?A" and n2: "tool_name ?st2 = ?N" and i2: "tool_call_id ?st2 = ?I"
    and r2: "reasoning_content_buffer ?st2 @ ev_reasoning t = ?R"
    and l2: "last_chunk ?st2 = Some (last frags)"
    using frags by (simp_all add: after_fragments_def init_def)
  from process_event_terminal [of t ?st2 "last frags" repl enc carrier]
    assms(5,6) sc b2 n2 i2 r2 l2
  obtain st' where pet: "process_event enc repl ?st2 t =
      ([Flushed carrier ?N ?A ?I ?R, Forwarded (remap_finish t)], Inr st')"
    by auto
  have s1: "stream_loop loads enc repl is_disconnected 0 init (l1 # ls @ [lt]) =
      ([Forwarded e] @ fst (stream_loop loads enc repl is_disconnected (Suc 0) ?st1 (ls @ [lt])),
       snd (stream_loop loads enc repl is_disconnected (Suc 0) ?st1 (ls @ [lt])))"
    using nd el1 pe1 by (rule stream_loop_event)
  have s2: "stream_loop loads enc repl is_disconnected (Suc 0) ?st1 (ls @ [lt]) =
      (map Forwarded es
         @ fst (stream_loop loads enc repl is_disconnected (Suc 0 + length ls) ?st2 [lt]),
       snd (stream_loop loads enc repl is_disconnected (Suc 0 + length ls) ?st2 [lt]))"
    by (rule stream_loop_fragments [OF fes els assms(8)]) simp_all
  have s3: "stream_loop loads enc repl is_disconnected (Suc 0 + length ls) ?st2 [lt] =
      ([Flushed carrier ?N ?A ?I ?R, Forwarded (remap_finish t)]
         @ fst (stream_loop loads enc repl is_disconnected (Suc (Suc 0 + length ls)) st' []),
       snd (stream_loop loads enc repl is_disconnected (Suc (Suc 0 + length ls)) st' []))"
    using nd elt pet by (rule stream_loop_event)
  have "stream_loop loads enc repl is_disconnected 0 init (l1 # ls @ [lt]) =
      (map Forwarded frags @ [Flushed carrier ?N ?A ?I ?R, Forwarded (remap_finish t)],
       Completed st')"
    unfolding s1 s2 s3 using frags by simp
  moreover have "handle_stream_response loads enc repl is_disconnected r =
      stream_loop loads enc repl is_disconnected 0 init
        (filter (\<lambda>l. startswith l ''data: '') (body_lines r))"
    using assms(1) stream_loop_filter [OF assms(8)] by (simp add: handle_stream_response_def)
  ultimately show ?thesis using lines sc by simp
qed


theorem one_call_one_flush_witness:
  "\<not> is_error sample_stream
   \<and> sample_call \<noteq> []
   \<and> list_all (is_fragment 0 0) sample_call
   \<and> delta_field (hd sample_call) ''role'' = Some (JStr ''assistant'')
   \<and> is_terminal sample_finish
   \<and> concat (map frag_name sample_call) = ''f''
   \<and> concat (map frag_args sample_call) = ''{}x''
   \<and> concat (map frag_id sample_call) = ''c1''
   \<and> list_all2 (event_line sample_loads)
        (filter (\<lambda>l. startswith l ''data: '') (body_lines sample_stream))
        (sample_call @ [sample_finish])
   \<and> (\<exists>carrier st'.
         handle_stream_response sample_loads sample_enc id (\<lambda>k. False) sample_stream =
           (map Forwarded sample_call @
              [Flushed carrier (concat (map frag_name sample_call))
                 (concat (map frag_args sample_call)) (concat (map frag_id sample_call))
                 (concat (map ev_reasoning (sample_call @ [sample_finish]))),
               Forwarded (remap_finish sample_finish)],
            Completed st')
         \<and> set_content (last sample_call)
               (id (sample_enc (concat (map frag_name sample_call))
                  (concat (map frag_args sample_call)) (concat (map frag_id sample_call))
                  (concat (map ev_reasoning (sample_call @ [sample_finish])))))
             = Inr carrier)"
proof -
  note path_defs = choice_field_def top_field_def delta_field_def delta0_def choice0_def
    tool_call0_def function0_def reasoning_ok_def opt_str_def str_or_empty_def
  have h1: "\<not> is_error sample_stream"
    by (simp add: is_error_def sample_stream_def)
  have h2: "sample_call \<noteq> []"
    by (simp add: sample_call_def)
  have h3: "list_all (is_fragment 0 0) sample_call"
    by (simp add: sample_call_def is_fragment_def sample_fragment_def path_defs)
  have h4: "delta_field (hd sample_call) ''role'' = Some (JStr ''assistant'')"
    by (simp add: sample_call_def sample_fragment_def path_defs)
  have h5: "is_terminal sample_finish"
    by (simp add: is_terminal_def sample_finish_def path_defs)
  have n: "concat (map frag_name sample_call) = ''f''"
    by (simp add: sample_call_def sample_fragment_def frag_name_def path_defs)
  have a: "concat (map frag_args sample_call) = ''{}x''"
    by (simp add: sample_call_def sample_fragment_def frag_args_def path_defs)
  have i: "concat (map frag_id sample_call) = ''c1''"
    by (simp add: sample_call_def sample_fragment_def frag_id_def path_defs)
  from a have h6: "concat (map frag_args sample_call) \<noteq> []" by simp
  have h7: "list_all2 (event_line sample_loads)
              (filter (\<lambda>l. startswith l ''data: '') (body_lines sample_stream))
              (sample_call @ [sample_finish])"
    by (simp add: sample_stream_def sample_call_def event_line_def line_defs sample_loads_def)
  have h8: "\<forall>k. \<not> (\<lambda>k. False) k" by simp
  from one_call_one_flush [OF h1 h2 h3 h4 h5 h6 h7 h8, where enc = sample_enc and repl = id]
  show ?thesis using h1 h2 h3 h4 h5 n a i h7 by blast
qed

text \<open>
  The claim as it was stated fails when the call's arguments text is empty (a call without
  arguments, streamed as the empty string): the fragment is never flushed, and the stream
  yields no synthetic text event at all.
\<close>

theorem empty_arguments_no_flush_counterexample:
  "is_fragment 0 0 (sample_fragment [(''role'', JStr ''assistant'')] 0 0 ''c1'' ''f'' [])
   \<and> is_terminal sample_finish
   \<and> list_all2 (event_line sample_loads) [''data: n1'', ''data: fin'']
        [sample_fragment [(''role'', JStr ''assistant'')] 0 0 ''c1'' ''f'' [], sample_finish]
   \<and> fst (handle_stream_response sample_loads sample_enc id (\<lambda>k. False)
        \<lparr> status_code = 200, body_text = [], body_lines = [''data: n1'', ''data: fin''] \<rparr>) =
      [Forwarded (sample_fragment [(''role'', JStr ''assistant'')] 0 0 ''c1'' ''f'' []),
       Forwarded sample_finish]"
  by (simp add: is_error_def is_fragment_def is_terminal_def event_line_def line_defs
      sample_defs choice_field_def top_field_def delta_field_def delta0_def choice0_def
      tool_call0_def function0_def reasoning_ok_def opt_str_def
      handle_stream_response_def step_defs)

section \<open>Flushes need an arguments text\<close>

text \<open>
  Claim C9, as amended. A flush line is yielded only when the arguments buffer is not empty:
  every flush line of a stream has a non-empty arguments text. At a flush point where the
  buffer is empty nothing is flushed and nothing is reset. At the sentinel the local
  variables stay as they are. For an event read with an empty buffer, either no flush line is
  yielded and the tool name, the call id and the reasoning text accumulated so far are still
  at the front of the accumulators afterwards, or the one flush line yielded (after the
  event's own arguments were appended) begins with them: what an argument-less fragment left
  in the accumulators is not dropped, it goes out with the next flush if there is one.
\<close>

theorem flush_only_with_arguments:
  "(\<not> is_error r \<longrightarrow> handle_stream_response loads enc repl is_disconnected r = (outs, oc) \<longrightarrow>
      Flushed carrier n a i rs \<in> set outs \<longrightarrow> a \<noteq> [])
   \<and> (buffer st = [] \<longrightarrow> \<not> is_disconnected k \<longrightarrow> startswith line ''data: '' \<longrightarrow>
      strip line = ''data: [DONE]'' \<longrightarrow>
      stream_loop loads enc repl is_disconnected k st [line] =
        ([Raw (line @ [CHR 0x0A, CHR 0x0A])], Completed st))
   \<and> (buffer st = [] \<longrightarrow> process_event enc repl st data = (outs', Inr st') \<longrightarrow>
      (\<exists>d. outs' = [Forwarded d]
            \<and> startswith (tool_name st') (tool_name st)
            \<and> startswith (tool_call_id st') (tool_call_id st)
            \<and> startswith (reasoning_content_buffer st') (reasoning_content_buffer st))
      \<or> (\<exists>carrier' n' a' i' rs' d. outs' = [Flushed carrier' n' a' i' rs', Forwarded d]
            \<and> a' \<noteq> []
            \<and> startswith n' (tool_name st)
            \<and> startswith i' (tool_call_id st)
            \<and> startswith rs' (reasoning_content_buffer st)))"
proof (intro conjI impI)
  assume "\<not> is_error r" and "handle_stream_response loads enc repl is_disconnected r = (outs, oc)"
    and m: "Flushed carrier n a i rs \<in> set outs"
  then have "stream_loop loads enc repl is_disconnected 0 init (body_lines r) = (outs, oc)"
    by (simp add: handle_stream_response_def)
  from stream_loop_fields [OF carrier_ok_init this] have "list_all flush_sound outs" by simp
  from flush_sound_member [OF this m] show "a \<noteq> []" by simp
next
  assume "buffer st = []" "\<not> is_disconnected k" "startswith line ''data: ''"
    "strip line = ''data: [DONE]''"
  then show "stream_loop loads enc repl is_disconnected k st [line] =
        ([Raw (line @ [CHR 0x0A, CHR 0x0A])], Completed st)"
    by (rule sentinel_idle)
next
  assume "buffer st = []" and "process_event enc repl st data = (outs', Inr st')"
  then show "(\<exists>d. outs' = [Forwarded d]
            \<and> startswith (tool_name st') (tool_name st)
            \<and> startswith (tool_call_id st') (tool_call_id st)
            \<and> startswith (reasoning_content_buffer st') (reasoning_content_buffer st))
      \<or> (\<exists>carrier' n' a' i' rs' d. outs' = [Flushed carrier' n' a' i' rs', Forwarded d]
            \<and> a' \<noteq> []
            \<and> startswith n' (tool_name st)
            \<and> startswith i' (tool_call_id st)
            \<and> startswith rs' (reasoning_content_buffer st))"
    by (rule process_event_idle)
qed


theorem flush_only_with_arguments_witness:
  "\<not> is_error sample_stream
   \<and> Flushed sample_carrier ''f'' ''{}x'' ''c1'' []
        \<in> set (fst (handle_stream_response sample_loads sample_enc id (\<lambda>k. False) sample_stream))
   \<and> ''{}x'' \<noteq> []
   \<and> buffer init = []
   \<and> startswith ''data: [DONE]'' ''data: '' \<and> strip ''data: [DONE]'' = ''data: [DONE]''
   \<and> stream_loop sample_loads sample_enc id (\<lambda>k. False) 0 init [''data: [DONE]''] =
        ([Raw (''data: [DONE]'' @ [CHR 0x0A, CHR 0x0A])], Completed init)
   \<and> (\<exists>st'. process_event sample_enc id init
               (sample_fragment [(''role'', JStr ''assistant'')] 0 0 ''c1'' ''f'' []) =
             ([Forwarded (sample_fragment [(''role'', JStr ''assistant'')] 0 0 ''c1'' ''f'' [])],
              Inr st')
           \<and> buffer st' = [] \<and> tool_name st' = ''f'' \<and> tool_call_id st' = ''c1'')"
proof -
  have e: "process_event sample_enc id init
               (sample_fragment [(''role'', JStr ''assistant'')] 0 0 ''c1'' ''f'' []) =
             ([Forwarded (sample_fragment [(''role'', JStr ''assistant'')] 0 0 ''c1'' ''f'' [])],
              Inr (init\<lparr> role := JStr ''assistant'', tool_name := ''f'', tool_call_id := ''c1'',
                 last_chunk := Some (sample_fragment [(''role'', JStr ''assistant'')] 0 0 ''c1'' ''f'' []) \<rparr>))"
    by (simp add: step_defs sample_defs)
  have b: "buffer init = []" by (simp add: init_def)
  have m: "Flushed sample_carrier ''f'' ''{}x'' ''c1'' []
        \<in> set (fst (handle_stream_response sample_loads sample_enc id (\<lambda>k. False) sample_stream))"
    by (simp add: sample_stream_run)
  have l: "startswith ''data: [DONE]'' ''data: ''" "strip ''data: [DONE]'' = ''data: [DONE]''"
    by (simp_all add: line_defs)
  have s: "\<not> is_error sample_stream" by (simp add: is_error_def sample_stream_def)
  from flush_only_with_arguments [of sample_stream sample_loads sample_enc id "\<lambda>k. False"
      "fst (handle_stream_response sample_loads sample_enc id (\<lambda>k. False) sample_stream)"
      "snd (handle_stream_response sample_loads sample_enc id (\<lambda>k. False) sample_stream)"
      sample_carrier "''f''" "''{}x''" "''c1''" "[]" init 0 "''data: [DONE]''"
      "sample_fragment [(''role'', JStr ''assistant'')] 0 0 ''c1'' ''f'' []"
      "[Forwarded (sample_fragment [(''role'', JStr ''assistant'')] 0 0 ''c1'' ''f'' [])]"
      "init\<lparr> role := JStr ''assistant'', tool_name := ''f'', tool_call_id := ''c1'',
                 last_chunk := Some (sample_fragment [(''role'', JStr ''assistant'')] 0 0 ''c1'' ''f'' []) \<rparr>"]
    s m b l e
  show ?thesis by (simp add: init_def)
qed

text \<open>
  The claim as it was stated says that what a fragment with an empty arguments text has
  accumulated never reaches a synthetic text event. It does: a first call streamed without
  arguments (name \<open>f\<close>, id \<open>c1\<close>), followed by a second call (call index 1, name \<open>g\<close>, id
  \<open>c2\<close>, arguments \<open>{}\<close>), is not flushed at the change of call index, and the one flush
  of the stream carries the name \<open>fg\<close> and the id \<open>c1c2\<close>.
\<close>

theorem empty_arguments_merge_counterexample:
  "frag_args (sample_fragment [(''role'', JStr ''assistant'')] 0 0 ''c1'' ''f'' []) = []
   \<and> flush_calls (fst (handle_stream_response sample_loads sample_enc id (\<lambda>k. False)
        \<lparr> status_code = 200, body_text = [],
          body_lines = [''data: n1'', ''data: n2'', ''data: [DONE]''] \<rparr>)) =
      [(''fg'', ''{}'', ''c1c2'')]"
  by code_simp

section \<open>Flush before a new fragment opens\<close>

text \<open>
  Claim C4, as amended. Let \<open>st\<close> be the local variables a stream has reached when the next
  event is read, with a fragment open whose arguments buffer is not empty, and let \<open>p\<close> be
  what lines 170 to 175 read from the event (the reasoning text of the event is appended
  first: \<open>reasoning_after p\<close>). There is a carrier, and writing into it succeeds. If the
  event has another choice index, an empty delta, another role or no tool-call fragment
  (\<open>boundary\<close>), the first line yielded is the flush of the open fragment, with exactly the
  name, arguments text and id accumulated before the event, and lines 183 to 199 (the opening
  of a new fragment, all accumulation, the finish reason) run on emptied accumulators. If
  none of these holds and the event's fragment has another call index, the same flush is the
  first line yielded, and the fragment's pieces are added to emptied accumulators.
\<close>

theorem flush_before_open:
  assumes reach: "stream_loop loads enc repl is_disconnected 0 init pre = (outs0, Completed st)"
    and opn: "buffer st \<noteq> []"
    and p: "parse_event st data = Inr p"
  shows "\<exists>lc carrier.
           last_chunk st = Some lc
           \<and> set_content lc (repl (enc (tool_name st) (buffer st) (tool_call_id st)
                  (reasoning_after p))) = Inr carrier
           \<and> (boundary st p \<longrightarrow>
                process_event enc repl st data =
                  (Flushed carrier (tool_name st) (buffer st) (tool_call_id st) (reasoning_after p)
                     # fst (after_boundary enc repl data p (flushed st carrier)),
                   snd (after_boundary enc repl data p (flushed st carrier))))
           \<and> (\<not> boundary st p \<longrightarrow>
                (\<forall>tc idx.
                   index0 (py_or (tool_calls_in_delta p) (JArr [JObj []])) = Inr tc \<longrightarrow>
                   dict_get tc ''index'' JNull = Inr idx \<longrightarrow>
                   \<not> py_eq idx (tool_call_index st) \<longrightarrow>
                   process_event enc repl st data =
                     (Flushed carrier (tool_name st) (buffer st) (tool_call_id st) (reasoning_after p)
                        # fst (bindR (add_fragment data tc
                                 ((flushed st carrier)\<lparr> choice_index := choice_index_of_delta p,
                                     role := role_in_delta p \<rparr>))
                               (\<lambda>(st3, al). finish enc repl data al st3)),
                      snd (bindR (add_fragment data tc
                                 ((flushed st carrier)\<lparr> choice_index := choice_index_of_delta p,
                                     role := role_in_delta p \<rparr>))
                               (\<lambda>(st3, al). finish enc repl data al st3)))))"
proof -
  from stream_loop_reachable [OF open_ok_init carrier_ok_init reach]
  have oo: "open_ok st" and co: "carrier_ok JNull False st" by simp_all
  from oo opn obtain lc where lc: "last_chunk st = Some lc" and ro: "role st = JStr ''assistant''"
    by (auto simp: open_ok_def)
  from co lc have "has_tool_calls lc" by (simp add: carrier_ok_def)
  then obtain carrier where sc: "set_content lc (repl (enc (tool_name st) (buffer st) (tool_call_id st)
                  (reasoning_after p))) = Inr carrier"
    by (rule has_tool_calls_set_content_ok)
  let ?st0 = "st\<lparr> reasoning_content_buffer := reasoning_after p \<rparr>"
  let ?F = "Flushed carrier (tool_name st) (buffer st) (tool_call_id st) (reasoning_after p)"
  have fl0: "create_tool_call enc repl ?st0 = ([?F], Inr (flushed st carrier))"
    using lc sc by (simp add: create_tool_call_def flushed_def)
  have A: "process_event enc repl st data =
             (?F # fst (after_boundary enc repl data p (flushed st carrier)),
              snd (after_boundary enc repl data p (flushed st carrier)))" if "boundary st p"
    using that p opn fl0 by (simp add: process_event_def flush_if_def)
  have B: "process_event enc repl st data =
             (?F # fst (bindR (add_fragment data tc
                                 ((flushed st carrier)\<lparr> choice_index := choice_index_of_delta p,
                                     role := role_in_delta p \<rparr>))
                               (\<lambda>(st3, al). finish enc repl data al st3)),
              snd (bindR (add_fragment data tc
                                 ((flushed st carrier)\<lparr> choice_index := choice_index_of_delta p,
                                     role := role_in_delta p \<rparr>))
                               (\<lambda>(st3, al). finish enc repl data al st3)))"
    if nb: "\<not> boundary st p"
      and tc: "index0 (py_or (tool_calls_in_delta p) (JArr [JObj []])) = Inr tc"
      and idx: "dict_get tc ''index'' JNull = Inr idx"
      and ch: "\<not> py_eq idx (tool_call_index st)" for tc idx
  proof -
    from nb ro have rd: "role_in_delta p = JStr ''assistant''" by (simp add: boundary_def)
    let ?st2 = "?st0\<lparr> choice_index := choice_index_of_delta p, role := role_in_delta p \<rparr>"
    have fl2: "create_tool_call enc repl ?st2 =
        ([?F], Inr ((flushed st carrier)\<lparr> choice_index := choice_index_of_delta p,
                                     role := role_in_delta p \<rparr>))"
      using lc sc by (simp add: create_tool_call_def flushed_def)
    have acc: "accumulate enc repl data (tool_calls_in_delta p) ?st2 =
        bindR (create_tool_call enc repl ?st2) (add_fragment data tc)"
      using tc idx ch opn by (simp add: accumulate_def flush_if_def)
    have "process_event enc repl st data =
        bindR (accumulate enc repl data (tool_calls_in_delta p) ?st2)
          (\<lambda>(st3, al). finish enc repl data al st3)"
      using p nb rd by (simp add: process_event_def after_boundary_def Let_def flush_if_def)
    also have "\<dots> = bindR (create_tool_call enc repl ?st2)
         (\<lambda>s. bindR (add_fragment data tc s) (\<lambda>(st3, al). finish enc repl data al st3))"
      by (simp only: acc bindR_assoc)
    finally show ?thesis by (simp only: fl2 bindR_pair_Inr append_Cons append_Nil)
  qed
  from lc sc A B show ?thesis by blast
qed


theorem flush_before_open_witness:
  "stream_loop sample_loads sample_enc id (\<lambda>k. False) 0 init [''data: a1''] =
     ([Forwarded (sample_fragment [(''role'', JStr ''assistant'')] 0 0 ''c1'' ''f'' ''{}'')],
      Completed sample_open)
   \<and> buffer sample_open = ''{}''
   \<and> (\<exists>p tc. parse_event sample_open (sample_fragment [] 0 1 ''c2'' ''g'' ''{}'') = Inr p
         \<and> \<not> boundary sample_open p
         \<and> index0 (py_or (tool_calls_in_delta p) (JArr [JObj []])) = Inr tc
         \<and> dict_get tc ''index'' JNull = Inr (JInt 1)
         \<and> \<not> py_eq (JInt 1) (tool_call_index sample_open))
   \<and> flush_calls (fst (process_event sample_enc id sample_open
        (sample_fragment [] 0 1 ''c2'' ''g'' ''{}''))) = [(''f'', ''{}'', ''c1'')]
   \<and> (\<exists>st'. snd (process_event sample_enc id sample_open
                 (sample_fragment [] 0 1 ''c2'' ''g'' ''{}'')) = Inr st'
           \<and> tool_name st' = ''g'' \<and> buffer st' = ''{}'' \<and> tool_call_id st' = ''c2'')"
proof -
  let ?e = "sample_fragment [] 0 1 ''c2'' ''g'' ''{}''"
  let ?p = "\<lparr> choice_index_of_delta = JInt 0,
              delta = JObj [(''tool_calls'', JArr [JObj [(''index'', JInt 1), (''id'', JStr ''c2''),
                 (''function'', JObj [(''name'', JStr ''g''), (''arguments'', JStr ''{}'')])]])],
              role_in_delta = JStr ''assistant'',
              tool_calls_in_delta = JArr [JObj [(''index'', JInt 1), (''id'', JStr ''c2''),
                 (''function'', JObj [(''name'', JStr ''g''), (''arguments'', JStr ''{}'')])]],
              reasoning_after = [] \<rparr>"
  let ?tc = "JObj [(''index'', JInt 1), (''id'', JStr ''c2''),
                 (''function'', JObj [(''name'', JStr ''g''), (''arguments'', JStr ''{}'')])]"
  have r: "stream_loop sample_loads sample_enc id (\<lambda>k. False) 0 init [''data: a1''] =
     ([Forwarded (sample_fragment [(''role'', JStr ''assistant'')] 0 0 ''c1'' ''f'' ''{}'')],
      Completed sample_open)"
    by (simp add: step_defs line_defs sample_defs sample_open_def)
  have b: "buffer sample_open \<noteq> []" by (simp add: sample_open_def)
  have p: "parse_event sample_open ?e = Inr ?p"
    by (simp add: parse_event_def sample_open_def sample_fragment_def py_or_def)
  have nb: "\<not> boundary sample_open ?p"
    by (simp add: boundary_def sample_open_def)
  have tc: "index0 (py_or (tool_calls_in_delta ?p) (JArr [JObj []])) = Inr ?tc"
    by (simp add: py_or_def)
  have ix: "dict_get ?tc ''index'' JNull = Inr (JInt 1)" by simp
  have ch: "\<not> py_eq (JInt 1) (tool_call_index sample_open)" by (simp add: sample_open_def)
  have ev: "flush_calls (fst (process_event sample_enc id sample_open ?e)) = [(''f'', ''{}'', ''c1'')]"
    "\<exists>st'. snd (process_event sample_enc id sample_open ?e) = Inr st'
           \<and> tool_name st' = ''g'' \<and> buffer st' = ''{}'' \<and> tool_call_id st' = ''c2''"
    by (simp_all add: step_defs sample_defs sample_open_def)
  from flush_before_open [OF r b p] r p nb tc ix ch ev
  show ?thesis by (simp add: sample_open_def)
qed

text \<open>
  The claim as it was stated fails when the open fragment has no arguments text yet. A
  fragment on choice 0 (name \<open>f\<close>, id \<open>c1\<close>, empty arguments) followed by a fragment on
  choice 1 (name \<open>g\<close>, id \<open>c2\<close>) is not flushed at the change of choice: the two
  fragments share the accumulators, and the one flush of the stream names the call \<open>fg\<close>
  with the id \<open>c1c2\<close>.
\<close>

theorem choice_change_without_flush_counterexample:
  "choice_field (sample_fragment [(''role'', JStr ''assistant'')] 0 0 ''c1'' ''f'' []) ''index''
     = Some (JInt 0)
   \<and> choice_field (sample_fragment [] 1 0 ''c2'' ''g'' ''{}'') ''index'' = Some (JInt 1)
   \<and> fst (handle_stream_response sample_loads sample_enc id (\<lambda>k. False)
        \<lparr> status_code = 200, body_text = [], body_lines = [''data: n1'', ''data: m2''] \<rparr>) =
      [Forwarded (sample_fragment [(''role'', JStr ''assistant'')] 0 0 ''c1'' ''f'' []),
       Forwarded (sample_fragment [] 1 0 ''c2'' ''g'' ''{}'')]
   \<and> flush_calls (fst (handle_stream_response sample_loads sample_enc id (\<lambda>k. False)
        \<lparr> status_code = 200, body_text = [],
          body_lines = [''data: n1'', ''data: m2'', ''data: [DONE]''] \<rparr>)) =
      [(''fg'', ''{}'', ''c1c2'')]"
  by code_simp

section \<open>The outbound rewrite\<close>

text \<open>
  Claim C10, as amended. Let the request be an object whose message list begins with an
  object that has the role \<^verbatim>\<open>system\<close> or \<^verbatim>\<open>user\<close>. \<^verbatim>\<open>process_request\<close> returns when,
  in addition, that first message has a content, \<^verbatim>\<open>build_tool_parser\<close>, the parser's
  message rewriter and the replacement return, the request's \<^verbatim>\<open>tools\<close> are absent, false
  or a list (or the parser found no schema), and the dump files configured can be opened for
  writing. It then returns the parser that \<^verbatim>\<open>build_tool_parser\<close> made, the completion
  transform that the replacement made, and the request with: for its messages what the
  replacement returned for what the rewriter returned for the message list with the first
  message's role set to \<^verbatim>\<open>system\<close> and its content to the prompt of
  \<^verbatim>\<open>build_tool_parser\<close>; for its tools the tools it had followed by the parser's schemas;
  the tool choice \<^verbatim>\<open>required\<close> when tool calling is forced and there are tools; every
  other key as it was. The dumps configured are written. When the message list is empty (or
  otherwise false), or its first message has another role, the variable \<^verbatim>\<open>parser\<close> is
  unbound at line 111 and the call raises \<^verbatim>\<open>UnboundLocalError\<close>; nothing is written and no
  message is passed through.
\<close>

theorem process_request_outcome:
  "(map_of rkvs ''messages'' = Some (JArr (JObj mkvs # rest)) \<longrightarrow>
    map_of mkvs ''role'' = Some ro \<longrightarrow> (ro = JStr ''system'' \<or> ro = JStr ''user'') \<longrightarrow>
    map_of mkvs ''content'' = Some c \<longrightarrow>
    build_tool_parser co (prompt_text (str_other co) c) (\<not> disable_strict_schemas cfg)
      = Inr (parser, prompt') \<longrightarrow>
    (schemas co parser = [] \<or> tools_listed rkvs) \<longrightarrow>
    modify_xml_messages_to_tool_calls co parser
      (JArr (JObj (dict_set ''content'' (JStr prompt')
                     (dict_set ''role'' (JStr ''system'') mkvs)) # rest)) = Inr ms1 \<longrightarrow>
    apply_replacement_to_messages co ms1 = Inr (ms2, transform) \<longrightarrow>
    can_dump can_open (message_dump_path cfg) \<longrightarrow>
    can_dump can_open (tool_dump_path cfg) \<longrightarrow>
    (\<exists>rkvs'.
       process_request co can_open cfg (JObj rkvs) =
         (dumped (message_dump_path cfg) ms2
            @ dumped (tool_dump_path cfg)
                (py_or (case map_of rkvs' ''tools'' of None \<Rightarrow> JNull | Some v \<Rightarrow> v) (JStr ''[]'')),
          Inr (JObj rkvs', parser, transform))
       \<and> map_of rkvs' ''messages'' = Some ms2
       \<and> map_of rkvs' ''tools'' =
           (if schemas co parser = [] then map_of rkvs ''tools''
            else Some (JArr (listed_tools rkvs @ schemas co parser)))
       \<and> map_of rkvs' ''tool_choice'' =
           (if force_tool_calling cfg
               \<and> truthy (case map_of rkvs' ''tools'' of None \<Rightarrow> JNull | Some v \<Rightarrow> v)
            then Some (JStr ''required'') else map_of rkvs ''tool_choice'')
       \<and> (\<forall>k. k \<noteq> ''messages'' \<and> k \<noteq> ''tools'' \<and> k \<noteq> ''tool_choice''
              \<longrightarrow> map_of rkvs' k = map_of rkvs k)))
   \<and> (map_of rkvs ''messages'' = Some ms \<longrightarrow> \<not> truthy ms \<longrightarrow>
        process_request co can_open cfg (JObj rkvs) = ([], Inl UnboundLocalError))
   \<and> (map_of rkvs ''messages'' = Some (JArr (JObj mkvs # rest)) \<longrightarrow>
        map_of mkvs ''role'' = Some ro \<longrightarrow> ro \<noteq> JStr ''system'' \<longrightarrow> ro \<noteq> JStr ''user'' \<longrightarrow>
        process_request co can_open cfg (JObj rkvs) = ([], Inl UnboundLocalError))"
proof (intro conjI impI)
  assume "map_of rkvs ''messages'' = Some ms" and "\<not> truthy ms"
  then show "process_request co can_open cfg (JObj rkvs) = ([], Inl UnboundLocalError)"
    using process_request_unbound [of rkvs ms co can_open cfg] by simp
next
  assume "map_of rkvs ''messages'' = Some (JArr (JObj mkvs # rest))"
    and "map_of mkvs ''role'' = Some ro" and "ro \<noteq> JStr ''system''" and "ro \<noteq> JStr ''user''"
  then show "process_request co can_open cfg (JObj rkvs) = ([], Inl UnboundLocalError)"
    using process_request_unbound [of rkvs "JArr (JObj mkvs # rest)" co can_open cfg] by simp
qed (rule process_request_returns)

text \<open>
  A user prompt and an assistant message, with a parser that finds one tool, forced tool
  calling and a message dump; an empty message list; a message list that begins with a tool
  message.
\<close>

theorem process_request_outcome_witness:
  "process_request sample_collaborators (\<lambda>f. f = ''m.json'') sample_config
     (sample_request [sample_message ''user'' ''hi'', sample_message ''assistant'' ''ok'']) =
     ([Dump ''m.json''
         (JArr [sample_message ''system'' ''P:hi'', sample_message ''assistant'' ''ok''])],
      Inr (JObj [(''model'', JStr ''m''),
                 (''messages'',
                    JArr [sample_message ''system'' ''P:hi'', sample_message ''assistant'' ''ok'']),
                 (''tools'', JArr [JObj [(''type'', JStr ''function'')]]),
                 (''tool_choice'', JStr ''required'')],
           (), id))
   \<and> process_request sample_collaborators (\<lambda>f. f = ''m.json'') sample_config
        (sample_request []) = ([], Inl UnboundLocalError)
   \<and> process_request sample_collaborators (\<lambda>f. f = ''m.json'') sample_config
        (sample_request [sample_message ''tool'' ''42'']) = ([], Inl UnboundLocalError)"
  using process_request_outcome [of "[(''model'', JStr ''m''),
        (''messages'', JArr [sample_message ''user'' ''hi'', sample_message ''assistant'' ''ok''])]"
      "[(''role'', JStr ''user''), (''content'', JStr ''hi'')]"
      "[sample_message ''assistant'' ''ok'']" "JStr ''user''" "JStr ''hi''"
      sample_collaborators sample_config "()" "''P:hi''"
      "JArr [sample_message ''system'' ''P:hi'', sample_message ''assistant'' ''ok'']"
      "JArr [sample_message ''system'' ''P:hi'', sample_message ''assistant'' ''ok'']"
      id "\<lambda>f. f = ''m.json''" "JArr []"]
    process_request_outcome [of "[(''model'', JStr ''m''), (''messages'', JArr [sample_message ''tool'' ''42''])]"
      "[(''role'', JStr ''tool''), (''content'', JStr ''42'')]" "[]" "JStr ''tool''" "JStr ''42''"
      sample_collaborators sample_config "()" "[]" JNull JNull id "\<lambda>f. f = ''m.json''" "JArr []"]
  by (simp add: sample_request_def sample_message_def sample_collaborators_def sample_config_def
      process_request_def rewrite_first_def first_is_prompt_def system_prompt_of_def
      prompt_text_def add_schemas_def tools_plus_def force_tool_choice_def rewrite_messages_def
      write_dumps_def dump_json_def tools_or_text_def py_or_def dict_set_def)

text \<open>
  The claim as it was stated fails for a first message that has the role \<^verbatim>\<open>user\<close> and no
  content: the precondition of the claim holds, and line 92 raises \<^verbatim>\<open>KeyError\<close>.
\<close>

theorem first_message_without_content_counterexample:
  "first_is_prompt (sample_request [JObj [(''role'', JStr ''user'')]]) = Inr True
   \<and> process_request sample_collaborators (\<lambda>f. True) sample_config
        (sample_request [JObj [(''role'', JStr ''user'')]]) = ([], Inl KeyError)"
  by (simp add: sample_request_def process_request_def rewrite_first_def first_is_prompt_def
      system_prompt_of_def)

text \<open>
  Claim C7. A request whose message list does not begin with a system or user message does
  not get its messages passed through: the variable \<^verbatim>\<open>parser\<close> is bound only inside the
  branch of line 91, line 111 uses it whatever the branch, and \<^verbatim>\<open>process_request\<close>
  raises \<^verbatim>\<open>UnboundLocalError\<close> before any message reaches the rewriter, whatever the
  messages hold.
\<close>

theorem unbound_parser_raises:
  assumes "map_of rkvs ''messages'' = Some (JArr (JObj mkvs # rest))"
    and "map_of mkvs ''role'' = Some (JStr ro)"
    and "ro \<noteq> ''system''" and "ro \<noteq> ''user''"
  shows "process_request co can_open cfg (JObj rkvs) = ([], Inl UnboundLocalError)"
  using assms process_request_unbound [of rkvs "JArr (JObj mkvs # rest)" co can_open cfg] by simp

text \<open>An assistant message without any tag, followed by a user message.\<close>

theorem unbound_parser_raises_witness:
  "map_of [(''model'', JStr ''m''),
       (''messages'', JArr [sample_message ''assistant'' ''hello'', sample_message ''user'' ''hi''])]
     ''messages'' =
     Some (JArr (JObj [(''role'', JStr ''assistant''), (''content'', JStr ''hello'')]
                 # [sample_message ''user'' ''hi'']))
   \<and> process_request sample_collaborators (\<lambda>f. True) sample_config
        (sample_request [sample_message ''assistant'' ''hello'', sample_message ''user'' ''hi''])
      = ([], Inl UnboundLocalError)"
  using unbound_parser_raises [of "[(''model'', JStr ''m''),
       (''messages'', JArr [sample_message ''assistant'' ''hello'', sample_message ''user'' ''hi''])]"
     "[(''role'', JStr ''assistant''), (''content'', JStr ''hello'')]"
     "[sample_message ''user'' ''hi'']" "''assistant''" sample_collaborators "\<lambda>f. True" sample_config]
  by (simp add: sample_request_def sample_message_def)

section \<open>Configuration reads\<close>

text \<open>
  Claim C8, as amended. \<^verbatim>\<open>process_request\<close> works with the one configuration it read at its
  start. The base URL of the backend call is read again from the process-wide variable: it
  is the base URL of that configuration after the updates (\<^verbatim>\<open>update_config\<close>) served between
  the two reads, in order; the two reads agree when no update was served between them.
\<close>

theorem config_reads_follow_updates:
  "fst (request_config_reads env g between) = fst (get_config env g)
   \<and> fst (snd (request_config_reads env g between)) =
       target_base_url (fold (\<lambda>data c. model_copy c data) between (fst (get_config env g)))
   \<and> fst (snd (request_config_reads env g [])) = target_base_url (fst (get_config env g))"
proof -
  obtain cfg g1 where c: "get_config env g = (cfg, g1)" by (cases "get_config env g")
  with get_config_Some [of env g] have g1: "g1 = Some cfg" by simp
  show ?thesis
    by (simp add: request_config_reads_def c g1 fold_update_config get_config_bound)
qed

theorem config_reads_follow_updates_witness:
  "fst (request_config_reads Map.empty None []) = default_config Map.empty
   \<and> fst (snd (request_config_reads Map.empty None [])) = ''https://api.openai.com/v1''
   \<and> fst (snd (request_config_reads Map.empty None
        [[Set_force_tool_calling True], [Set_target_base_url ''http://localhost:1234/v1'']])) =
      ''http://localhost:1234/v1''"
  using config_reads_follow_updates [of Map.empty None "[]"]
    config_reads_follow_updates [of Map.empty None
      "[[Set_force_tool_calling True], [Set_target_base_url ''http://localhost:1234/v1'']]"]
  by (simp add: get_config_def default_config_def model_copy_def)

text \<open>
  The claim as it was stated fails when a configuration update is served between the outbound
  rewrite and the backend call: the rewrite worked with the default base URL, the backend call
  goes to the updated one.
\<close>

theorem config_update_between_reads_counterexample:
  "target_base_url (fst (request_config_reads Map.empty None
        [[Set_target_base_url ''http://localhost:1234/v1'']])) = ''https://api.openai.com/v1''
   \<and> fst (snd (request_config_reads Map.empty None
        [[Set_target_base_url ''http://localhost:1234/v1'']])) = ''http://localhost:1234/v1''"
  by (simp add: request_config_reads_def get_config_def update_config_def default_config_def
      model_copy_def)

end
